theory Spec2Isabelle
  imports Main "HOL-Library.Sublist"
begin

section \<open>Python strings\<close>

text \<open>
  A Python \<open>str\<close> is a sequence of Unicode code points.  The programs below look at
  code points outside ASCII (the byte-order mark U+FEFF, the brackets of the
  network-drive marker, Unicode white space), so a string is modelled as the list of its
  code points.  \<open>ascii\<close> embeds an ASCII literal.
\<close>

type_synonym pystr = "nat list"

definition ascii :: "string \<Rightarrow> pystr" where
  "ascii cs = map of_char cs"

text \<open>
  \<open>str.isspace\<close> of one code point.  \<open>str.strip()\<close> without argument and the
  regular expression class \<open>\s\<close> on \<open>str\<close> patterns use the same predicate.
\<close>

definition isspace :: "nat \<Rightarrow> bool" where
  "isspace c =
     ((9 \<le> c \<and> c \<le> 13) \<or> (28 \<le> c \<and> c \<le> 32) \<or> c = 133 \<or> c = 160 \<or> c = 5760 \<or>
      (8192 \<le> c \<and> c \<le> 8202) \<or> c = 8232 \<or> c = 8233 \<or> c = 8239 \<or> c = 8287 \<or>
      c = 12288)"

text \<open>\<open>s.strip()\<close>: leading and trailing white space removed.\<close>

definition strip :: "pystr \<Rightarrow> pystr" where
  "strip s = rev (dropWhile isspace (rev (dropWhile isspace s)))"

text \<open>\<open>s.lstrip(chars)\<close>: leading code points that occur in \<open>chars\<close> removed.\<close>

definition lstrip_chars :: "pystr \<Rightarrow> pystr \<Rightarrow> pystr" where
  "lstrip_chars chars s = dropWhile (\<lambda>c. c \<in> set chars) s"

definition startswith :: "pystr \<Rightarrow> pystr \<Rightarrow> bool" where
  "startswith s pre = prefix pre s"

definition endswith :: "pystr \<Rightarrow> pystr \<Rightarrow> bool" where
  "endswith s suf = suffix suf s"

text \<open>\<open>sub in s\<close> on strings: \<open>sub\<close> occurs in \<open>s\<close> as a contiguous substring.\<close>

fun str_in :: "pystr \<Rightarrow> pystr \<Rightarrow> bool" where
  "str_in sub [] = (sub = [])"
| "str_in sub (c # cs) = (prefix sub (c # cs) \<or> str_in sub cs)"

text \<open>
  \<open>re.split(r'\s+', s)\<close>: the pieces of \<open>s\<close> between maximal runs of white space; a
  run at the start or at the end leaves an empty piece there, and the empty string gives
  one empty piece.
\<close>

fun re_split_ws :: "pystr \<Rightarrow> pystr list" where
  "re_split_ws [] = [[]]"
| "re_split_ws (c # cs) =
     (if isspace c then
        (case cs of
           [] \<Rightarrow> [] # re_split_ws cs
         | d # _ \<Rightarrow> if isspace d then re_split_ws cs else [] # re_split_ws cs)
      else
        (case re_split_ws cs of
           [] \<Rightarrow> [[c]]
         | p # ps \<Rightarrow> (c # p) # ps))"

text \<open>\<open>s.split(sep)\<close> for a separator of one code point.\<close>

fun split_on :: "nat \<Rightarrow> pystr \<Rightarrow> pystr list" where
  "split_on sep [] = [[]]"
| "split_on sep (c # cs) =
     (if c = sep then [] # split_on sep cs
      else (case split_on sep cs of
              [] \<Rightarrow> [[c]]
            | p # ps \<Rightarrow> (c # p) # ps))"

text \<open>\<open>sep.join(parts)\<close>.\<close>

fun join :: "pystr \<Rightarrow> pystr list \<Rightarrow> pystr" where
  "join sep [] = []"
| "join sep [p] = p"
| "join sep (p # q # ps) = p @ sep @ join sep (q # ps)"

text \<open>
  \<open>s.replace(old, new, 1)\<close>: the first occurrence of \<open>old\<close> replaced; an empty
  \<open>old\<close> occurs at position 0.
\<close>

fun replace_first :: "pystr \<Rightarrow> pystr \<Rightarrow> pystr \<Rightarrow> pystr" where
  "replace_first old new [] = (if old = [] then new else [])"
| "replace_first old new (c # cs) =
     (if prefix old (c # cs) then new @ drop (length old) (c # cs)
      else c # replace_first old new cs)"

text \<open>\<open>s.replace("\\", "/")\<close>: every backslash (92) becomes a slash (47).\<close>

definition replace_backslash :: "pystr \<Rightarrow> pystr" where
  "replace_backslash s = map (\<lambda>c. if c = 92 then 47 else c) s"

text \<open>
  A Python \<open>dict\<close> whose iteration order matters, as an association list: assigning to
  a key that is present keeps its position, a new key goes to the end.
\<close>

fun dict_set :: "('k \<times> 'v) list \<Rightarrow> 'k \<Rightarrow> 'v \<Rightarrow> ('k \<times> 'v) list" where
  "dict_set [] k v = [(k, v)]"
| "dict_set ((k', v') # kvs) k v =
     (if k' = k then (k, v) # kvs else (k', v') # dict_set kvs k v)"

section \<open>The hosts merger (\<open>src/__init__.py\<close>)\<close>

subsection \<open>Address filter\<close>

text \<open>
  \<open>ipaddress.ip_address\<close> belongs to the Python standard library, not to the plugin.
  Its result is an address object with a version and an integer value; on a string that
  is no address it raises \<open>ValueError\<close>.  The parser is a parameter \<open>ipa\<close> of the
  model (\<open>None\<close> is the \<open>ValueError\<close>); \<open>version\<close> and \<open>is_loopback\<close> are the
  library's attributes: an IPv4 address is loopback inside 127.0.0.0/8, an IPv6 address
  when it is \<open>::1\<close>.
\<close>

datatype ip_obj = IPv4Address nat | IPv6Address nat

fun version :: "ip_obj \<Rightarrow> nat" where
  "version (IPv4Address n) = 4"
| "version (IPv6Address n) = 6"

fun is_loopback :: "ip_obj \<Rightarrow> bool" where
  "is_loopback (IPv4Address n) = (n div 2 ^ 24 = 127)"
| "is_loopback (IPv6Address n) = (n = 1)"

text \<open>\<open>__should_ignore_ip\<close>, lines 623-635.\<close>

definition should_ignore_ip :: "(pystr \<Rightarrow> ip_obj option) \<Rightarrow> pystr \<Rightarrow> bool" where
  "should_ignore_ip ipa ip =
     (case ipa ip of
        None \<Rightarrow> False
      | Some ip_obj \<Rightarrow> if is_loopback ip_obj \<or> version ip_obj = 6 then True else False)"

subsection \<open>The merge\<close>

text \<open>
  Lines 549-550: \<open>self._ignore.split("|") if self._ignore else []\<close>, extended by
  \<open>"localhost"\<close>.  The configuration value is a string or \<open>None\<close>; an empty string
  is false.
\<close>

definition ignore_list :: "pystr option \<Rightarrow> pystr list" where
  "ignore_list cfg =
     (case cfg of
        None \<Rightarrow> []
      | Some s \<Rightarrow> if s = [] then [] else split_on 124 s) @ [ascii ''localhost'']"

text \<open>
  Lines 559-568, the body of the loop over the remote lines after the line has been
  copied: the host name that is recorded for the line in \<open>hostname_to_line_index\<close>,
  \<open>None\<close> when the line records nothing.  35 is \<open>#\<close>, 32 the space, 9 the tab.
\<close>

definition remote_entry ::
  "(pystr \<Rightarrow> ip_obj option) \<Rightarrow> pystr list \<Rightarrow> pystr \<Rightarrow> pystr option" where
  "remote_entry ipa ignore line =
     (let line_stripped = strip line in
      if \<not> startswith line_stripped [35] \<and> line_stripped \<noteq> [] \<and>
         (str_in [32] line_stripped \<or> str_in [9] line_stripped)
      then
        (let parts = re_split_ws line_stripped in
         if length parts > 1 then
           (let ip = parts ! 0; hostname = parts ! 1 in
            if \<not> should_ignore_ip ipa ip \<and> hostname \<notin> set ignore \<and> ip \<notin> set ignore
            then Some hostname else None)
         else None)
      else None)"

text \<open>
  Lines 558-568: every remote line is appended to \<open>merged_hosts\<close>; the index of the
  line just appended is recorded for its host name.
\<close>

fun remote_loop ::
  "(pystr \<Rightarrow> ip_obj option) \<Rightarrow> pystr list \<Rightarrow> pystr list \<Rightarrow>
   pystr list \<times> (pystr \<rightharpoonup> nat) \<Rightarrow> pystr list \<times> (pystr \<rightharpoonup> nat)" where
  "remote_loop ipa ignore [] (merged_hosts, hostname_to_line_index) =
     (merged_hosts, hostname_to_line_index)"
| "remote_loop ipa ignore (line # rest) (merged_hosts, hostname_to_line_index) =
     (let merged_hosts' = merged_hosts @ [line] in
      remote_loop ipa ignore rest
        (merged_hosts',
         (case remote_entry ipa ignore line of
            None \<Rightarrow> hostname_to_line_index
          | Some hostname \<Rightarrow> hostname_to_line_index(hostname \<mapsto> length merged_hosts' - 1))))"

text \<open>
  Lines 572-580, the body of the loop over the local lines: the pair
  \<open>(hostname, line)\<close> stored in \<open>local_updates\<close>, \<open>None\<close> when the line is skipped.
  65279 is the byte-order mark.
\<close>

definition local_entry ::
  "(pystr \<Rightarrow> ip_obj option) \<Rightarrow> pystr list \<Rightarrow> pystr \<Rightarrow> (pystr \<times> pystr) option" where
  "local_entry ipa ignore raw =
     (let line = strip (lstrip_chars [65279] raw) in
      if startswith line [35] \<or> list_ex (\<lambda>ign. str_in ign line) ignore \<or> line = [] then None
      else
        (let parts = re_split_ws line in
         if length parts < 2 then None
         else
           (let ip = parts ! 0; hostname = parts ! 1 in
            if \<not> should_ignore_ip ipa ip \<and> hostname \<notin> set ignore \<and> ip \<notin> set ignore
            then Some (hostname, line) else None)))"

fun local_loop ::
  "(pystr \<Rightarrow> ip_obj option) \<Rightarrow> pystr list \<Rightarrow> pystr list \<Rightarrow>
   (pystr \<times> pystr) list \<Rightarrow> (pystr \<times> pystr) list" where
  "local_loop ipa ignore [] local_updates = local_updates"
| "local_loop ipa ignore (line # rest) local_updates =
     local_loop ipa ignore rest
       (case local_entry ipa ignore line of
          None \<Rightarrow> local_updates
        | Some (hostname, l) \<Rightarrow> dict_set local_updates hostname l)"

text \<open>
  Lines 583-592: an update whose host name has an index overwrites that line (an index
  out of range would raise \<open>IndexError\<close>, here \<open>None\<close>); any other update is appended.
\<close>

fun update_loop ::
  "(pystr \<rightharpoonup> nat) \<Rightarrow> (pystr \<times> pystr) list \<Rightarrow> pystr list \<Rightarrow> pystr list option" where
  "update_loop hostname_to_line_index [] merged_hosts = Some merged_hosts"
| "update_loop hostname_to_line_index ((hostname, new_line) # rest) merged_hosts =
     (case hostname_to_line_index hostname of
        Some line_index \<Rightarrow>
          if line_index < length merged_hosts
          then update_loop hostname_to_line_index rest (merged_hosts[line_index := new_line])
          else None
      | None \<Rightarrow> update_loop hostname_to_line_index rest (merged_hosts @ [new_line]))"

text \<open>
  \<open>__merge_hosts_with_local\<close>, lines 544-599, on an explicit ignore list; the
  \<open>except\<close> branch returns the empty list.
\<close>

definition merge_with ::
  "(pystr \<Rightarrow> ip_obj option) \<Rightarrow> pystr list \<Rightarrow> pystr list \<Rightarrow> pystr list \<Rightarrow> pystr list" where
  "merge_with ipa ignore local_hosts remote_hosts =
     (case remote_loop ipa ignore remote_hosts ([], Map.empty) of
        (merged_hosts, hostname_to_line_index) \<Rightarrow>
          (let local_updates = local_loop ipa ignore local_hosts [] in
           case update_loop hostname_to_line_index local_updates merged_hosts of
             Some merged \<Rightarrow> merged
           | None \<Rightarrow> []))"

definition merge_hosts_with_local ::
  "(pystr \<Rightarrow> ip_obj option) \<Rightarrow> pystr option \<Rightarrow> pystr list \<Rightarrow> pystr list \<Rightarrow> pystr list" where
  "merge_hosts_with_local ipa cfg_ignore local_hosts remote_hosts =
     merge_with ipa (ignore_list cfg_ignore) local_hosts remote_hosts"

text \<open>
  The standard library's parser on the address tokens that occur in the examples below;
  no other token is parsed there.
\<close>

definition ip_address_ex :: "pystr \<Rightarrow> ip_obj option" where
  "ip_address_ex t =
     (if t = ascii ''127.0.0.1'' then Some (IPv4Address 2130706433)
      else if t = ascii ''1.2.3.4'' then Some (IPv4Address 16909060)
      else if t = ascii ''5.6.7.8'' then Some (IPv4Address 84281096)
      else if t = ascii ''::1'' then Some (IPv6Address 1)
      else None)"

subsection \<open>Derived notions used to state the properties\<close>

text \<open>
  The index built by the loop over the remote lines, and the update map built by the loop
  over the local lines, each from its empty start.
\<close>

definition remote_index ::
  "(pystr \<Rightarrow> ip_obj option) \<Rightarrow> pystr list \<Rightarrow> pystr list \<Rightarrow> (pystr \<rightharpoonup> nat)" where
  "remote_index ipa ignore remote_hosts =
     snd (remote_loop ipa ignore remote_hosts ([], Map.empty))"

definition local_updates ::
  "(pystr \<Rightarrow> ip_obj option) \<Rightarrow> pystr list \<Rightarrow> pystr list \<Rightarrow> (pystr \<times> pystr) list" where
  "local_updates ipa ignore local_hosts = local_loop ipa ignore local_hosts []"

text \<open>The in-place part of \<open>update_loop\<close>: the overwrites without the appends.\<close>

fun overwrite :: "(pystr \<rightharpoonup> nat) \<Rightarrow> (pystr \<times> pystr) list \<Rightarrow> pystr list \<Rightarrow> pystr list" where
  "overwrite idx [] m = m"
| "overwrite idx ((h, l) # us) m =
     overwrite idx us (case idx h of Some i \<Rightarrow> m[i := l] | None \<Rightarrow> m)"

section \<open>The path translator and the scan queue
  (\<open>src/plugins.v2/plexpartialscan/__init__.py\<close>)\<close>

subsection \<open>Configuration\<close>

text \<open>
  One entry of \<open>_path_library_mapping\<close>: the dictionary with the keys \<open>local\<close>,
  \<open>remote\<close> and \<open>library_id\<close> built in \<open>init_plugin\<close> (lines 99-103).
\<close>

record mapping =
  rule_local :: pystr
  rule_remote :: pystr
  rule_library_id :: pystr

text \<open>
  The fields of the plugin object that the translator and the queue processing read.
  A field that holds a string or \<open>None\<close> is an option; \<open>_library_mapping\<close> is a
  dictionary whose order of values is used, so an association list.
\<close>

record plugin =
  path_library_mapping :: "mapping list"
  path_mapping_local :: "pystr option"
  path_mapping_remote :: "pystr option"
  library_mapping :: "(pystr \<times> pystr) list"
  refresh_rclone :: bool
  rclone_rc_url :: "pystr option"
  notify :: bool
  plex_url :: "pystr option"
  plex_token :: "pystr option"

text \<open>Python truth of a value that is a string or \<open>None\<close>.\<close>

definition truthy :: "pystr option \<Rightarrow> bool" where
  "truthy v = (case v of None \<Rightarrow> False | Some s \<Rightarrow> s \<noteq> [])"

text \<open>The marker of a network-drive path: U+3010, \<open>u115\<close>, U+3011.\<close>

definition marker :: pystr where
  "marker = [12304, 117, 49, 49, 53, 12305]"

subsection \<open>\<open>translate_path\<close>, lines 855-1002\<close>

text \<open>\<open>p if p.endswith("/") else p + "/"\<close>; 47 is the slash.\<close>

definition ensure_slash :: "pystr \<Rightarrow> pystr" where
  "ensure_slash p = (if endswith p [47] then p else p @ [47])"

text \<open>The test of one triple rule against the normalized path (lines 883-886, 965-968).\<close>

definition rule_matches :: "mapping \<Rightarrow> pystr \<Rightarrow> bool" where
  "rule_matches mapping path_normalized =
     (let local_prefix = replace_backslash (rule_local mapping);
          local_prefix_match = (if endswith local_prefix [47] then local_prefix
                                else local_prefix @ [47])
      in startswith path_normalized local_prefix_match \<or> path_normalized = local_prefix)"

text \<open>
  The loop over the triple rules (lines 874-894 and 959-976; the two loops have the same
  body): the first rule that matches returns, \<open>None\<close> when the loop ends without a
  return.
\<close>

fun match_library_mapping :: "mapping list \<Rightarrow> pystr \<Rightarrow> (pystr \<times> pystr option) option" where
  "match_library_mapping [] path_normalized = None"
| "match_library_mapping (mapping # rest) path_normalized =
     (let local_prefix = replace_backslash (rule_local mapping);
          remote_prefix = replace_backslash (rule_remote mapping);
          library_id = rule_library_id mapping
      in if rule_matches mapping path_normalized
         then Some (replace_first local_prefix remote_prefix path_normalized, Some library_id)
         else match_library_mapping rest path_normalized)"

text \<open>Lines 941-954: the remote prefix put in front of the path after the marker.\<close>

definition simple_mode :: "pystr \<Rightarrow> pystr \<Rightarrow> (pystr \<times> pystr option) option" where
  "simple_mode path_mapping_remote' path_without_prefix =
     (let remote_prefix = ensure_slash (replace_backslash path_mapping_remote');
          path_without_prefix' =
            (if startswith path_without_prefix [47] then drop 1 path_without_prefix
             else path_without_prefix);
          remote_path = remote_prefix @ path_without_prefix'
      in Some (remote_path, None))"

text \<open>Lines 867-954: a path that starts with the marker.\<close>

definition translate_marker_path :: "plugin \<Rightarrow> pystr \<Rightarrow> (pystr \<times> pystr option) option" where
  "translate_marker_path self local_path =
     (let path_without_prefix = replace_first marker [] local_path in
      case match_library_mapping (path_library_mapping self)
             (replace_backslash path_without_prefix) of
        Some r \<Rightarrow> Some r
      | None \<Rightarrow>
          if \<not> truthy (path_mapping_remote self) then Some (path_without_prefix, None)
          else if truthy (path_mapping_local self) then
            (let local_prefix = ensure_slash (replace_backslash (the (path_mapping_local self)));
                 remote_prefix = ensure_slash (replace_backslash (the (path_mapping_remote self)));
                 pwp = replace_backslash path_without_prefix;
                 pwp' = (if startswith pwp [47] then drop 1 pwp else pwp)
             in if startswith pwp' (lstrip_chars [47] local_prefix) then
                  (let remote_path = replace_first (lstrip_chars [47] local_prefix)
                                       (lstrip_chars [47] remote_prefix) pwp';
                       remote_path' = (if \<not> startswith remote_path [47] then [47] @ remote_path
                                       else remote_path)
                   in Some (remote_path', None))
                else simple_mode (the (path_mapping_remote self)) pwp')
          else simple_mode (the (path_mapping_remote self)) path_without_prefix)"

text \<open>
  \<open>translate_path\<close>.  The annotation of the result is
  \<open>Optional[Tuple[str, Optional[str]]]\<close>: the outer option is the \<open>None\<close> result, the
  inner one the library id.
\<close>

definition translate_path :: "plugin \<Rightarrow> pystr \<Rightarrow> (pystr \<times> pystr option) option" where
  "translate_path self local_path =
     (if startswith local_path marker then translate_marker_path self local_path
      else
        case match_library_mapping (path_library_mapping self) (replace_backslash local_path) of
          Some r \<Rightarrow> Some r
        | None \<Rightarrow>
            if \<not> truthy (path_mapping_local self) \<or> \<not> truthy (path_mapping_remote self)
            then Some (local_path, None)
            else
              (let local_path' = replace_backslash local_path;
                   local_prefix = ensure_slash (replace_backslash (the (path_mapping_local self)));
                   remote_prefix = ensure_slash (replace_backslash (the (path_mapping_remote self)))
               in if startswith local_path' local_prefix
                  then Some (replace_first local_prefix remote_prefix local_path', None)
                  else Some (local_path', None)))"

text \<open>The caller's test \<open>not result or not result[0]\<close> (line 772).\<close>

definition translation_failed :: "(pystr \<times> pystr option) option \<Rightarrow> bool" where
  "translation_failed result =
     (case result of None \<Rightarrow> True | Some (remote_path, library_id) \<Rightarrow> remote_path = [])"

subsection \<open>Media type and library lookup\<close>

text \<open>
  \<open>str.lower\<close> is the built-in of Python; it is a parameter \<open>lower\<close> of the model.
  \<open>_detect_media_type_from_path\<close>, lines 728-749; the keywords are written as code
  points where they are not ASCII.
\<close>

definition detect_media_type_from_path :: "(pystr \<Rightarrow> pystr) \<Rightarrow> pystr \<Rightarrow> pystr option" where
  "detect_media_type_from_path lower path =
     (let path_lower = lower path in
      if list_ex (\<lambda>keyword. str_in keyword path_lower)
           [[47, 30005, 24433, 47], ascii ''/movie'', ascii ''/movies/'']
      then Some (ascii ''movie'')
      else if list_ex (\<lambda>keyword. str_in keyword path_lower)
           [[47, 21160, 28459, 47], ascii ''/anime/'', [47, 21160, 30011, 47]]
      then Some (ascii ''anime'')
      else if list_ex (\<lambda>keyword. str_in keyword path_lower)
           [[47, 32593, 30424, 21095, 47], [47, 30005, 35270, 21095, 47], ascii ''/tv/'',
            ascii ''/series/'', ascii ''/show'']
      then Some (ascii ''tv'')
      else None)"

text \<open>The dictionary \<open>type_mapping\<close> of \<open>get_library_id\<close>, lines 1157-1165.\<close>

definition type_mapping :: "(pystr \<times> pystr) list" where
  "type_mapping =
     [(ascii ''movie'', ascii ''movie''), ([30005, 24433], ascii ''movie''),
      (ascii ''movies'', ascii ''movie''), (ascii ''tv'', ascii ''tv''),
      ([30005, 35270, 21095], ascii ''tv''), (ascii ''series'', ascii ''tv''),
      (ascii ''show'', ascii ''tv'')]"

text \<open>\<open>get_library_id\<close>, lines 1143-1179.\<close>

definition get_library_id :: "plugin \<Rightarrow> (pystr \<Rightarrow> pystr) \<Rightarrow> pystr option \<Rightarrow> pystr option" where
  "get_library_id self lower media_type =
     (if \<not> truthy media_type then
        (if library_mapping self \<noteq> [] then Some (hd (map snd (library_mapping self))) else None)
      else
        (let media_type_lower = lower (the media_type);
             mapped_type = (case map_of type_mapping media_type_lower of
                              Some t \<Rightarrow> t | None \<Rightarrow> media_type_lower);
             library_id = map_of (library_mapping self) mapped_type
         in if \<not> truthy library_id then
              (if library_mapping self \<noteq> [] then Some (hd (map snd (library_mapping self)))
               else library_id)
            else library_id))"

text \<open>\<open>get_library_ids\<close>, lines 1104-1121.\<close>

definition get_library_ids :: "plugin \<Rightarrow> (pystr \<Rightarrow> pystr) \<Rightarrow> pystr option \<Rightarrow> pystr list" where
  "get_library_ids self lower media_type =
     (if library_mapping self \<noteq> [] then
        (if truthy media_type then
           (let library_id = get_library_id self lower media_type in
            if truthy library_id then [the library_id] else [])
         else map snd (library_mapping self))
      else [])"

subsection \<open>Effects\<close>

text \<open>
  The calls that leave the plugin, in the order they are made: the refresh of the rclone
  cache for a directory, the call of \<open>trigger_plex_scan\<close> with its three arguments, the
  HTTP request it sends for one library and a path, and the notification (success flag,
  directory, number of files; the wording of the message is left out).
\<close>

datatype event =
    RcloneRefresh pystr
  | TriggerPlexScan pystr "pystr option" "pystr option"
  | HttpGet pystr pystr
  | PostMessage bool pystr nat

text \<open>
  \<open>trigger_plex_scan\<close>, lines 1046-1102: the requests sent and the result.  Whether a
  request is answered with status 200 is decided outside the plugin: the parameter
  \<open>http_ok\<close>.  An explicit library id is used alone; otherwise the ids come from
  \<open>get_library_ids\<close>.
\<close>

definition trigger_plex_scan ::
  "plugin \<Rightarrow> (pystr \<Rightarrow> pystr) \<Rightarrow> (pystr \<Rightarrow> pystr \<Rightarrow> bool) \<Rightarrow>
   pystr \<Rightarrow> pystr option \<Rightarrow> pystr option \<Rightarrow> event list \<times> bool" where
  "trigger_plex_scan self lower http_ok path media_type library_id =
     (if \<not> truthy (plex_url self) \<or> \<not> truthy (plex_token self) then ([], False)
      else
        (let library_ids = (if truthy library_id then [the library_id]
                            else get_library_ids self lower media_type)
         in if library_ids = [] then ([], False)
            else (map (\<lambda>library_id. HttpGet library_id path) library_ids,
                  0 < length (filter (\<lambda>library_id. http_ok library_id path) library_ids))))"

subsection \<open>\<open>process_scan_queue\<close>, lines 751-853\<close>

text \<open>
  The media information object of an entry: its title, the one attribute that is read,
  and the rest of its contents, which take part when two entries are compared.
\<close>

record media_info =
  media_title :: "pystr option"
  media_rest :: nat

text \<open>
  An entry of \<open>_scan_queue\<close> (lines 672-677): a dictionary with the keys \<open>path\<close>,
  \<open>mediainfo\<close>, \<open>media_type\<close> and \<open>time\<close>; the time stamp is a number.  Two entries
  are equal, for \<open>list.remove\<close>, when all four values are.
\<close>

record scan_item =
  item_path :: pystr
  item_mediainfo :: "media_info option"
  item_media_type :: "pystr option"
  item_time :: nat

text \<open>A value of \<open>dir_map\<close> (lines 792-797).\<close>

record dir_info =
  info_items :: "scan_item list"
  info_media_type :: "pystr option"
  info_library_id :: "pystr option"
  info_rclone_done :: bool

text \<open>Lines 779-782: the directory that is scanned for a remote path.\<close>

definition scan_dir_of :: "pystr \<Rightarrow> pystr" where
  "scan_dir_of remote_path =
     (if list_ex (\<lambda>ext. endswith remote_path ext)
           [ascii ''.mp4'', ascii ''.mkv'', ascii ''.avi'', ascii ''.ts'', ascii ''.m2ts'']
      then join [47] (butlast (split_on 47 remote_path)) @ [47]
      else remote_path)"

text \<open>\<open>dir_map[scan_dir]['items'].append(scan_item)\<close>.\<close>

fun append_item :: "(pystr \<times> dir_info) list \<Rightarrow> pystr \<Rightarrow> scan_item \<Rightarrow> (pystr \<times> dir_info) list" where
  "append_item [] scan_dir scan_item = []"
| "append_item ((k, info) # rest) scan_dir scan_item =
     (if k = scan_dir then (k, info\<lparr>info_items := info_items info @ [scan_item]\<rparr>) # rest
      else (k, info) # append_item rest scan_dir scan_item)"

text \<open>Lines 765-802: the first loop, which groups the queue by directory.\<close>

fun group_loop ::
  "plugin \<Rightarrow> (pystr \<Rightarrow> pystr) \<Rightarrow> scan_item list \<Rightarrow> (pystr \<times> dir_info) list \<Rightarrow>
   (pystr \<times> dir_info) list" where
  "group_loop self lower [] dir_map = dir_map"
| "group_loop self lower (scan_item # rest) dir_map =
     (let result = translate_path self (item_path scan_item) in
      if translation_failed result then group_loop self lower rest dir_map
      else
        (case result of
           None \<Rightarrow> group_loop self lower rest dir_map
         | Some (remote_path, library_id) \<Rightarrow>
             (let scan_dir = scan_dir_of remote_path;
                  detected_type = detect_media_type_from_path lower scan_dir;
                  media_type = (if truthy detected_type then detected_type
                                else item_media_type scan_item);
                  dir_map' =
                    (if scan_dir \<notin> set (map fst dir_map)
                     then dir_map @ [(scan_dir, \<lparr>info_items = [], info_media_type = media_type,
                                       info_library_id = library_id, info_rclone_done = False\<rparr>)]
                     else dir_map)
              in group_loop self lower rest (append_item dir_map' scan_dir scan_item))))"

text \<open>
  The state of one run: the queue, the effects so far, and whether an exception has left
  \<open>process_scan_queue\<close>.
\<close>

record run =
  run_queue :: "scan_item list"
  run_trace :: "event list"
  run_raised :: bool

text \<open>
  Lines 807-853: the second loop, over the directories.  The name \<open>scan_item\<close> is not
  bound by this loop: it still holds the last entry the first loop iterated over.
  \<open>list.remove\<close> deletes the first equal entry and raises \<open>ValueError\<close> when there is
  none; inside the \<open>try\<close> that reaches the \<open>except\<close> branch, which calls the same
  \<open>remove\<close> again, and this second \<open>ValueError\<close> leaves the function.
\<close>

fun scan_loop ::
  "plugin \<Rightarrow> (pystr \<Rightarrow> pystr) \<Rightarrow> (pystr \<Rightarrow> pystr \<Rightarrow> bool) \<Rightarrow> scan_item \<Rightarrow>
   (pystr \<times> dir_info) list \<Rightarrow> run \<Rightarrow> run" where
  "scan_loop self lower http_ok scan_item [] st = st"
| "scan_loop self lower http_ok scan_item ((scan_dir, dir_info) # rest) st =
     (let items = info_items dir_info;
          media_type = info_media_type dir_info;
          library_id = info_library_id dir_info;
          file_count = length items;
          rclone = (if refresh_rclone self \<and> truthy (rclone_rc_url self)
                    then [RcloneRefresh scan_dir] else []);
          (requests, scan_success) =
            trigger_plex_scan self lower http_ok scan_dir media_type library_id;
          message =
            (if scan_success then
               (if notify self \<and> items \<noteq> [] then [PostMessage True scan_dir file_count] else [])
             else
               (if notify self then [PostMessage False scan_dir file_count] else []));
          trace = run_trace st @ rclone @
                    [TriggerPlexScan scan_dir media_type library_id] @ requests @ message
      in if scan_item \<in> set (run_queue st)
         then scan_loop self lower http_ok scan_item rest
                (st\<lparr>run_queue := remove1 scan_item (run_queue st), run_trace := trace\<rparr>)
         else st\<lparr>run_trace := trace, run_raised := True\<rparr>)"

text \<open>\<open>process_scan_queue\<close> on the queue held by the plugin.\<close>

definition process_scan_queue ::
  "plugin \<Rightarrow> (pystr \<Rightarrow> pystr) \<Rightarrow> (pystr \<Rightarrow> pystr \<Rightarrow> bool) \<Rightarrow> scan_item list \<Rightarrow> run" where
  "process_scan_queue self lower http_ok scan_queue =
     (if scan_queue = [] then \<lparr>run_queue = scan_queue, run_trace = [], run_raised = False\<rparr>
      else
        (let dir_map = group_loop self lower scan_queue [];
             scan_item = last scan_queue
         in scan_loop self lower http_ok scan_item dir_map
              \<lparr>run_queue = scan_queue, run_trace = [], run_raised = False\<rparr>))"

text \<open>
  \<open>str.lower\<close> on the strings of the examples below, which have no cased code point
  outside ASCII.
\<close>

definition lower_ex :: "pystr \<Rightarrow> pystr" where
  "lower_ex s = map (\<lambda>c. if 65 \<le> c \<and> c \<le> 90 then c + 32 else c) s"

text \<open>Configurations of the examples.\<close>

definition no_config :: plugin where
  "no_config =
     \<lparr>path_library_mapping = [], path_mapping_local = None, path_mapping_remote = None,
      library_mapping = [], refresh_rclone = False, rclone_rc_url = None, notify = False,
      plex_url = None, plex_token = None\<rparr>"

definition pair_config :: plugin where
  "pair_config =
     no_config\<lparr>path_mapping_local := Some (ascii ''/a/''),
               path_mapping_remote := Some (ascii ''/y/'')\<rparr>"

definition triple_config :: plugin where
  "triple_config =
     no_config\<lparr>path_library_mapping :=
       [\<lparr>rule_local = ascii ''/a/'', rule_remote = ascii ''/x/'', rule_library_id = ascii ''7''\<rparr>]\<rparr>"

definition plex_config :: plugin where
  "plex_config =
     no_config\<lparr>library_mapping := [(ascii ''movie'', ascii ''1'')],
               plex_url := Some (ascii ''http://plex:32400''),
               plex_token := Some (ascii ''token'')\<rparr>"

definition queued :: "string \<Rightarrow> nat \<Rightarrow> scan_item" where
  "queued p t =
     \<lparr>item_path = ascii p, item_mediainfo = None, item_media_type = Some (ascii ''movie''),
      item_time = t\<rparr>"

section \<open>Properties of the hosts merger\<close>

subsection \<open>The loop over the remote lines\<close>

lemma remote_loop_snoc:
  "remote_loop ipa ig (R @ [r]) st =
     (case remote_loop ipa ig R st of (m, idx) \<Rightarrow>
        (m @ [r], case remote_entry ipa ig r of None \<Rightarrow> idx | Some h \<Rightarrow> idx(h \<mapsto> length m)))"
  by (induction R arbitrary: st) (auto simp: Let_def split: prod.splits option.splits)

lemma remote_loop_fst: "fst (remote_loop ipa ig R (m, idx)) = m @ R"
  by (induction R arbitrary: m idx) (auto simp: Let_def)

lemma remote_loop_pair:
  "remote_loop ipa ig R ([], Map.empty) = (R, remote_index ipa ig R)"
  using remote_loop_fst [of ipa ig R "[]" Map.empty]
  by (simp add: remote_index_def prod_eq_iff)

lemma remote_index_Nil: "remote_index ipa ig [] = Map.empty"
  by (simp add: remote_index_def)

lemma remote_index_snoc:
  "remote_index ipa ig (R @ [r]) =
     (case remote_entry ipa ig r of
        None \<Rightarrow> remote_index ipa ig R
      | Some h \<Rightarrow> (remote_index ipa ig R)(h \<mapsto> length R))"
proof -
  have "remote_loop ipa ig (R @ [r]) ([], Map.empty) =
        (case remote_loop ipa ig R ([], Map.empty) of (m, idx) \<Rightarrow>
          (m @ [r], case remote_entry ipa ig r of None \<Rightarrow> idx | Some h \<Rightarrow> idx(h \<mapsto> length m)))"
    by (rule remote_loop_snoc)
  also have "\<dots> = (R @ [r], case remote_entry ipa ig r of
                      None \<Rightarrow> remote_index ipa ig R
                    | Some h \<Rightarrow> (remote_index ipa ig R)(h \<mapsto> length R))"
    by (simp only: remote_loop_pair prod.case)
  finally show ?thesis
    unfolding remote_index_def [of ipa ig "R @ [r]"] by simp
qed

lemma remote_index_Some_iff:
  "remote_index ipa ig R h = Some i \<longleftrightarrow>
     i < length R \<and> remote_entry ipa ig (R ! i) = Some h \<and>
     (\<forall>j. i < j \<and> j < length R \<longrightarrow> remote_entry ipa ig (R ! j) \<noteq> Some h)"
proof (induction R arbitrary: i rule: rev_induct)
  case Nil
  show ?case by (simp add: remote_index_Nil)
next
  case (snoc r R)
  let ?e = "remote_entry ipa ig"
  let ?R' = "R @ [r]"
  have nth_old: "\<And>j. j < length R \<Longrightarrow> ?R' ! j = R ! j"
    by (simp add: nth_append)
  have nth_new: "?R' ! length R = r" by simp
  have len: "length ?R' = Suc (length R)" by simp
  show ?case
  proof (cases "?e r = Some h")
    case True
    then have l: "remote_index ipa ig ?R' h = Some (length R)"
      by (simp add: remote_index_snoc)
    show ?thesis
    proof
      assume "remote_index ipa ig ?R' h = Some i"
      with l have i: "i = length R" by simp
      show "i < length ?R' \<and> ?e (?R' ! i) = Some h \<and>
            (\<forall>j. i < j \<and> j < length ?R' \<longrightarrow> ?e (?R' ! j) \<noteq> Some h)"
        unfolding i len nth_new using True by auto
    next
      assume p: "i < length ?R' \<and> ?e (?R' ! i) = Some h \<and>
            (\<forall>j. i < j \<and> j < length ?R' \<longrightarrow> ?e (?R' ! j) \<noteq> Some h)"
      then have p1: "i < Suc (length R)"
        and p3: "\<And>j. i < j \<Longrightarrow> j < Suc (length R) \<Longrightarrow> ?e (?R' ! j) \<noteq> Some h"
        unfolding len by blast+
      have "i = length R"
      proof (rule ccontr)
        assume "i \<noteq> length R"
        with p1 have "i < length R" by arith
        then have "?e (?R' ! length R) \<noteq> Some h" by (rule p3) simp
        with True show False unfolding nth_new by simp
      qed
      with l show "remote_index ipa ig ?R' h = Some i" by simp
    qed
  next
    case False
    then have eq: "remote_index ipa ig ?R' h = remote_index ipa ig R h"
      by (cases "?e r") (simp_all add: remote_index_snoc)
    show ?thesis
    proof
      assume "remote_index ipa ig ?R' h = Some i"
      with eq snoc.IH [of i] have q1: "i < length R" and q2: "?e (R ! i) = Some h"
        and q3: "\<And>j. i < j \<Longrightarrow> j < length R \<Longrightarrow> ?e (R ! j) \<noteq> Some h"
        by simp_all
      have "\<And>j. i < j \<Longrightarrow> j < length ?R' \<Longrightarrow> ?e (?R' ! j) \<noteq> Some h"
      proof -
        fix j assume j: "i < j" "j < length ?R'"
        show "?e (?R' ! j) \<noteq> Some h"
        proof (cases "j = length R")
          case True
          then show ?thesis using False by simp
        next
          case False
          with j have jl: "j < length R" by simp
          then show ?thesis using q3 [OF j(1) jl] nth_old [OF jl] by simp
        qed
      qed
      then show "i < length ?R' \<and> ?e (?R' ! i) = Some h \<and>
            (\<forall>j. i < j \<and> j < length ?R' \<longrightarrow> ?e (?R' ! j) \<noteq> Some h)"
        using q1 q2 nth_old [OF q1] by simp
    next
      assume p: "i < length ?R' \<and> ?e (?R' ! i) = Some h \<and>
            (\<forall>j. i < j \<and> j < length ?R' \<longrightarrow> ?e (?R' ! j) \<noteq> Some h)"
      then have p1: "i < Suc (length R)" and p2: "?e (?R' ! i) = Some h"
        and p3: "\<And>j. i < j \<Longrightarrow> j < Suc (length R) \<Longrightarrow> ?e (?R' ! j) \<noteq> Some h"
        unfolding len by blast+
      have "i \<noteq> length R" using p2 False by auto
      with p1 have i: "i < length R" by arith
      have "?e (R ! i) = Some h" using p2 nth_old [OF i] by simp
      moreover have "\<And>j. i < j \<Longrightarrow> j < length R \<Longrightarrow> ?e (R ! j) \<noteq> Some h"
      proof -
        fix j assume j: "i < j" "j < length R"
        then have "?e (?R' ! j) \<noteq> Some h" using p3 [of j] by simp
        then show "?e (R ! j) \<noteq> Some h" using nth_old [OF j(2)] by simp
      qed
      ultimately have "remote_index ipa ig R h = Some i"
        using snoc.IH [of i] i by simp
      with eq show "remote_index ipa ig ?R' h = Some i" by simp
    qed
  qed
qed

lemma remote_index_dom:
  "dom (remote_index ipa ig R) = set (List.map_filter (remote_entry ipa ig) R)"
proof (induction R rule: rev_induct)
  case Nil
  show ?case by (simp add: remote_index_Nil List.map_filter_simps)
next
  case (snoc r R)
  have mf: "List.map_filter (remote_entry ipa ig) (R @ [r]) =
        List.map_filter (remote_entry ipa ig) R @
          (case remote_entry ipa ig r of None \<Rightarrow> [] | Some h \<Rightarrow> [h])"
    by (simp add: List.map_filter_def split: option.splits)
  show ?case
  proof (cases "remote_entry ipa ig r")
    case None
    then show ?thesis using snoc.IH mf by (simp add: remote_index_snoc)
  next
    case (Some h)
    then have "remote_index ipa ig (R @ [r]) = (remote_index ipa ig R)(h \<mapsto> length R)"
      by (simp add: remote_index_snoc)
    then have "dom (remote_index ipa ig (R @ [r])) = insert h (dom (remote_index ipa ig R))"
      by (simp only: dom_fun_upd) simp
    then show ?thesis using snoc.IH mf Some by simp
  qed
qed

lemma dict_set_keys:
  "map fst (dict_set kvs k v) =
     (if k \<in> fst ` set kvs then map fst kvs else map fst kvs @ [k])"
proof (induction kvs)
  case Nil
  show ?case by simp
next
  case (Cons p kvs)
  obtain k' v' where p: "p = (k', v')" by (cases p)
  show ?case
  proof (cases "k' = k")
    case True
    then show ?thesis using p by simp
  next
    case False
    then show ?thesis using p Cons.IH by simp
  qed
qed

lemma dict_set_keys_set: "fst ` set (dict_set kvs k v) = insert k (fst ` set kvs)"
proof -
  have "set (map fst (dict_set kvs k v)) = insert k (set (map fst kvs))"
    unfolding dict_set_keys by auto
  then show ?thesis by simp
qed

lemma dict_set_distinct: "distinct (map fst kvs) \<Longrightarrow> distinct (map fst (dict_set kvs k v))"
  by (simp add: dict_set_keys)

lemma dict_set_mem: "(h, l) \<in> set (dict_set kvs k v) \<Longrightarrow> (h, l) \<in> set kvs \<or> (h, l) = (k, v)"
  by (induction kvs) (auto split: if_splits)

lemma local_loop_distinct:
  "distinct (map fst acc) \<Longrightarrow> distinct (map fst (local_loop ipa ig L acc))"
  by (induction L arbitrary: acc) (auto simp: dict_set_distinct split: option.splits)

lemma local_loop_keys:
  "fst ` set (local_loop ipa ig L acc) =
     fst ` set acc \<union> fst ` set (List.map_filter (local_entry ipa ig) L)"
proof (induction L arbitrary: acc)
  case Nil
  show ?case by (simp add: List.map_filter_simps)
next
  case (Cons a L)
  show ?case
  proof (cases "local_entry ipa ig a")
    case None
    then show ?thesis using Cons.IH [of acc] by (simp add: List.map_filter_simps)
  next
    case (Some p)
    obtain k v where p: "p = (k, v)" by (cases p)
    show ?thesis
      using Cons.IH [of "dict_set acc k v"] Some p
      by (simp add: List.map_filter_simps dict_set_keys_set)
  qed
qed

lemma local_loop_mem:
  "(h, l) \<in> set (local_loop ipa ig L acc) \<Longrightarrow>
     (h, l) \<in> set acc \<or> (\<exists>raw \<in> set L. local_entry ipa ig raw = Some (h, l))"
proof (induction L arbitrary: acc)
  case Nil
  then show ?case by simp
next
  case (Cons a L)
  show ?case
  proof (cases "local_entry ipa ig a")
    case None
    then show ?thesis using Cons by auto
  next
    case (Some p)
    obtain k v where p: "p = (k, v)" by (cases p)
    from Cons.prems Some p have "(h, l) \<in> set (local_loop ipa ig L (dict_set acc k v))" by simp
    from Cons.IH [OF this] show ?thesis
      using Some p dict_set_mem [of h l acc k v] by auto
  qed
qed

subsection \<open>The update loop\<close>

lemma overwrite_length: "length (overwrite idx us m) = length m"
  by (induction us arbitrary: m) (auto split: option.splits)

lemma overwrite_append:
  "(\<And>h i. idx h = Some i \<Longrightarrow> i < length m) \<Longrightarrow>
     overwrite idx us (m @ x) = overwrite idx us m @ x"
proof (induction us arbitrary: m)
  case Nil
  show ?case by simp
next
  case (Cons p us)
  obtain h l where p: "p = (h, l)" by (cases p)
  show ?case
  proof (cases "idx h")
    case None
    then show ?thesis using p Cons.IH [of m] Cons.prems by simp
  next
    case (Some i)
    then have i: "i < length m" by (rule Cons.prems)
    have "overwrite idx us (m[i := l] @ x) = overwrite idx us (m[i := l]) @ x"
      by (rule Cons.IH) (simp add: Cons.prems)
    then show ?thesis using p Some i by (simp add: list_update_append)
  qed
qed

lemma update_loop_eq:
  "(\<And>h i. idx h = Some i \<Longrightarrow> i < length m) \<Longrightarrow>
     update_loop idx us m =
       Some (overwrite idx us m @ map snd (filter (\<lambda>(h, l). idx h = None) us))"
proof (induction us arbitrary: m)
  case Nil
  show ?case by simp
next
  case (Cons p us)
  obtain h l where p: "p = (h, l)" by (cases p)
  show ?case
  proof (cases "idx h")
    case None
    have "update_loop idx us (m @ [l]) =
            Some (overwrite idx us (m @ [l]) @ map snd (filter (\<lambda>(h, l). idx h = None) us))"
      by (rule Cons.IH) (use Cons.prems in fastforce)
    moreover have "overwrite idx us (m @ [l]) = overwrite idx us m @ [l]"
      by (rule overwrite_append) (rule Cons.prems)
    ultimately show ?thesis using p None by simp
  next
    case (Some i)
    then have i: "i < length m" by (rule Cons.prems)
    have "update_loop idx us (m[i := l]) =
            Some (overwrite idx us (m[i := l]) @ map snd (filter (\<lambda>(h, l). idx h = None) us))"
      by (rule Cons.IH) (simp add: Cons.prems)
    then show ?thesis using p Some i by simp
  qed
qed

lemma overwrite_untouched:
  "(\<And>h l. (h, l) \<in> set us \<Longrightarrow> idx h \<noteq> Some i) \<Longrightarrow> overwrite idx us m ! i = m ! i"
proof (induction us arbitrary: m)
  case Nil
  show ?case by simp
next
  case (Cons p us)
  obtain h l where p: "p = (h, l)" by (cases p)
  have ne: "idx h \<noteq> Some i" using Cons.prems [of h l] p by simp
  have ih: "\<And>m. overwrite idx us m ! i = m ! i"
    by (rule Cons.IH) (use Cons.prems in auto)
  show ?case
  proof (cases "idx h")
    case None
    then show ?thesis using p ih by simp
  next
    case (Some k)
    with ne have "k \<noteq> i" by simp
    then show ?thesis using p Some ih [of "m[k := l]"] by simp
  qed
qed

lemma overwrite_written:
  "(h, l) \<in> set us \<Longrightarrow> idx h = Some i \<Longrightarrow> i < length m \<Longrightarrow>
   (\<And>h' l'. (h', l') \<in> set us \<Longrightarrow> idx h' = Some i \<Longrightarrow> l' = l) \<Longrightarrow>
     overwrite idx us m ! i = l"
proof (induction us arbitrary: m h)
  case Nil
  then show ?case by simp
next
  case (Cons p us)
  obtain h0 l0 where p: "p = (h0, l0)" by (cases p)
  let ?m' = "case idx h0 of Some k \<Rightarrow> m[k := l0] | None \<Rightarrow> m"
  have len: "i < length ?m'" using Cons.prems(3) by (simp split: option.splits)
  have same: "\<And>h' l'. (h', l') \<in> set us \<Longrightarrow> idx h' = Some i \<Longrightarrow> l' = l"
    using Cons.prems(4) by auto
  show ?case
  proof (cases "(h, l) \<in> set us")
    case True
    have "overwrite idx us ?m' ! i = l"
      using True Cons.prems(2) len same by (rule Cons.IH)
    then show ?thesis using p by simp
  next
    case False
    with Cons.prems(1) p have hl: "h0 = h" "l0 = l" by auto
    have "\<And>h' l'. (h', l') \<in> set us \<Longrightarrow> idx h' \<noteq> Some i \<or> l' = l"
      using same by blast
    have "overwrite idx us ?m' ! i = l"
    proof (cases "\<exists>h' l'. (h', l') \<in> set us \<and> idx h' = Some i")
      case True
      then obtain h' l' where m: "(h', l') \<in> set us" and i': "idx h' = Some i" by blast
      then have "l' = l" by (rule same)
      with m have "(h', l) \<in> set us" by simp
      then show ?thesis using i' len same by (rule Cons.IH)
    next
      case False
      then have "overwrite idx us ?m' ! i = ?m' ! i"
        by (intro overwrite_untouched) blast
      then show ?thesis using hl Cons.prems(2,3) by simp
    qed
    then show ?thesis using p by simp
  qed
qed

lemma remote_index_bound: "remote_index ipa ig R h = Some i \<Longrightarrow> i < length R"
  by (simp add: remote_index_Some_iff)

lemma merge_with_char:
  "merge_with ipa ig L R =
     overwrite (remote_index ipa ig R) (local_updates ipa ig L) R @
     map snd (filter (\<lambda>(h, l). remote_index ipa ig R h = None) (local_updates ipa ig L))"
proof -
  have "update_loop (remote_index ipa ig R) (local_updates ipa ig L) R =
     Some (overwrite (remote_index ipa ig R) (local_updates ipa ig L) R @
     map snd (filter (\<lambda>(h, l). remote_index ipa ig R h = None) (local_updates ipa ig L)))"
    by (rule update_loop_eq) (rule remote_index_bound)
  then show ?thesis
    by (simp add: merge_with_def remote_loop_pair local_updates_def)
qed

lemma strip_idem: "strip (strip s) = strip s"
proof -
  define a where "a = dropWhile isspace s"
  define b where "b = dropWhile isspace (rev a)"
  have t: "strip s = rev b" by (simp add: strip_def a_def b_def)
  have fr: "dropWhile isspace (rev b) = rev b"
  proof (cases "b = []")
    case True
    then show ?thesis by simp
  next
    case False
    then have ra: "rev a \<noteq> []" by (auto simp: b_def)
    then have an: "a \<noteq> []" by simp
    then have "\<not> isspace (hd a)" unfolding a_def by (rule hd_dropWhile)
    moreover have "suffix b (rev a)" unfolding b_def by (rule suffix_dropWhile)
    then obtain c where c: "rev a = c @ b" by (auto simp: suffix_def)
    have "last b = last (rev a)" using False c by simp
    then have "hd (rev b) = hd a" using False an by (simp add: hd_rev last_rev)
    ultimately have "\<not> isspace (hd (rev b))" by simp
    then show ?thesis by (simp add: dropWhile_eq_self_iff)
  qed
  have bk: "dropWhile isspace b = b" by (simp add: b_def)
  show ?thesis unfolding t
    by (simp add: strip_def [of "rev b"] fr bk)
qed

lemma local_entry_line:
  "local_entry ipa ig raw = Some (h, l) \<Longrightarrow> l = strip (lstrip_chars [65279] raw)"
  by (auto simp: local_entry_def Let_def split: if_splits)

lemma local_entry_remote_entry:
  assumes "local_entry ipa ig raw = Some (h, l)" and "str_in [32] l \<or> str_in [9] l"
  shows "remote_entry ipa ig l = Some h"
proof -
  have l: "l = strip (lstrip_chars [65279] raw)" using assms(1) by (rule local_entry_line)
  then have s: "strip l = l" by (simp add: strip_idem)
  from assms(1) have "\<not> startswith l [35]" "l \<noteq> []" "\<not> length (re_split_ws l) < 2"
    "\<not> should_ignore_ip ipa (re_split_ws l ! 0)" "re_split_ws l ! 1 \<notin> set ig"
    "re_split_ws l ! 0 \<notin> set ig" "h = re_split_ws l ! 1"
    unfolding l by (auto simp: local_entry_def Let_def split: if_splits)
  then show ?thesis using assms(2)
    by (simp add: remote_entry_def Let_def s)
qed

lemma update_loop_noop:
  "(\<And>h l. (h, l) \<in> set us \<Longrightarrow> \<exists>k. idx h = Some k \<and> k < length m \<and> m ! k = l) \<Longrightarrow>
     update_loop idx us m = Some m"
proof (induction us)
  case Nil
  show ?case by simp
next
  case (Cons p us)
  obtain h l where p: "p = (h, l)" by (cases p)
  from Cons.prems [of h l] p obtain k where k: "idx h = Some k" "k < length m" "m ! k = l"
    by auto
  then have "m[k := l] = m" by (simp add: list_update_same_conv)
  moreover have "update_loop idx us m = Some m"
    by (rule Cons.IH) (use Cons.prems in auto)
  ultimately show ?case using p k by simp
qed

lemma local_updates_distinct: "distinct (map fst (local_updates ipa ig L))"
  unfolding local_updates_def by (rule local_loop_distinct) simp

lemma local_updates_mem:
  "(h, l) \<in> set (local_updates ipa ig L) \<Longrightarrow> \<exists>raw \<in> set L. local_entry ipa ig raw = Some (h, l)"
  unfolding local_updates_def using local_loop_mem [of h l ipa ig L "[]"] by simp

lemma local_updates_unique:
  "(h, l) \<in> set (local_updates ipa ig L) \<Longrightarrow> (h, l') \<in> set (local_updates ipa ig L) \<Longrightarrow> l = l'"
  using local_updates_distinct [of ipa ig L] by (rule eq_key_imp_eq_value)

lemma index_hit_unique:
  assumes "(h, l) \<in> set (local_updates ipa ig L)" "remote_index ipa ig R h = Some i"
    "(h', l') \<in> set (local_updates ipa ig L)" "remote_index ipa ig R h' = Some i"
  shows "l' = l"
proof -
  from assms(2,4) have "remote_entry ipa ig (R ! i) = Some h" "remote_entry ipa ig (R ! i) = Some h'"
    by (simp_all add: remote_index_Some_iff)
  then have "h' = h" by simp
  with assms(1,3) show ?thesis using local_updates_unique by blast
qed

lemma merge_with_written:
  assumes "(h, l) \<in> set (local_updates ipa ig L)" "remote_index ipa ig R h = Some i"
  shows "merge_with ipa ig L R ! i = l"
proof -
  have i: "i < length R" using assms(2) by (rule remote_index_bound)
  have "overwrite (remote_index ipa ig R) (local_updates ipa ig L) R ! i = l"
    using assms i
    by (rule overwrite_written) (rule index_hit_unique [OF assms])
  then show ?thesis using i
    by (simp add: merge_with_char nth_append overwrite_length)
qed

lemma merge_with_untouched:
  assumes "i < length R"
    "\<And>h l. (h, l) \<in> set (local_updates ipa ig L) \<Longrightarrow> remote_index ipa ig R h \<noteq> Some i"
  shows "merge_with ipa ig L R ! i = R ! i"
proof -
  have "overwrite (remote_index ipa ig R) (local_updates ipa ig L) R ! i = R ! i"
    by (rule overwrite_untouched) (rule assms(2))
  then show ?thesis using assms(1)
    by (simp add: merge_with_char nth_append overwrite_length)
qed

lemma merge_with_drop:
  "drop (length R) (merge_with ipa ig L R) =
     map snd (filter (\<lambda>(h, l). remote_index ipa ig R h = None) (local_updates ipa ig L))"
  by (simp add: merge_with_char overwrite_length)

lemma merge_with_length:
  "length (merge_with ipa ig L R) =
     length R + length (filter (\<lambda>(h, l). remote_index ipa ig R h = None) (local_updates ipa ig L))"
  by (simp add: merge_with_char overwrite_length)

subsection \<open>Evaluation on concrete inputs\<close>

text \<open>The definitions unfolded when the model is run on a concrete input.\<close>

lemmas ev = ascii_def isspace_def strip_def lstrip_chars_def startswith_def endswith_def
  replace_backslash_def should_ignore_ip_def ignore_list_def remote_entry_def local_entry_def
  merge_with_def merge_hosts_with_local_def ip_address_ex_def Let_def

subsection \<open>Length of the merged list\<close>

lemma news_length:
  "length (filter (\<lambda>(h, l). remote_index ipa ig R h = None) (local_updates ipa ig L)) =
     card (fst ` set (local_updates ipa ig L) - dom (remote_index ipa ig R))"
proof -
  let ?U = "local_updates ipa ig L"
  let ?P = "\<lambda>h. remote_index ipa ig R h = None"
  have "map fst (filter (\<lambda>(h, l). ?P h) ?U) = filter ?P (map fst ?U)"
    by (simp add: filter_map comp_def case_prod_unfold)
  then have "length (filter (\<lambda>(h, l). ?P h) ?U) = length (filter ?P (map fst ?U))"
    by (metis length_map)
  also have "\<dots> = card (set (filter ?P (map fst ?U)))"
  proof -
    have "distinct (filter ?P (map fst ?U))"
      using local_updates_distinct [of ipa ig L] by (rule distinct_filter)
    then show ?thesis by (rule distinct_card [symmetric])
  qed
  also have "set (filter ?P (map fst ?U)) = fst ` set ?U - dom (remote_index ipa ig R)"
    by (auto simp: dom_def)
  finally show ?thesis .
qed

lemma overwrite_Nil: "overwrite idx us [] = []"
  using overwrite_length [of idx us "[]"] by simp

lemma local_updates_keys:
  "fst ` set (local_updates ipa ig L) = fst ` set (List.map_filter (local_entry ipa ig) L)"
  unfolding local_updates_def using local_loop_keys [of ipa ig L "[]"] by simp

text \<open>
  Claim C1.  For every remote list \<open>R\<close>, local list \<open>L\<close> and ignore list, the merged list
  has length \<open>len(R)\<close> plus the number of distinct host names of eligible local lines
  (those for which \<open>local_entry\<close> stores an update: not a comment, not blank after the
  byte-order mark and white space are stripped, no ignore member inside, two tokens,
  address not filtered) that are not host names recorded for \<open>R\<close>.  With an empty remote
  list the result is exactly the lines of the update map, one per distinct eligible local
  host name: every update is an append.  \<open>merge_hosts_with_local\<close> is \<open>merge_with\<close> at
  the ignore list of the configuration.
\<close>

theorem merge_hosts_length:
  "length (merge_with ipa ig L R) =
     length R + card (fst ` set (List.map_filter (local_entry ipa ig) L) -
                      set (List.map_filter (remote_entry ipa ig) R)) \<and>
   merge_with ipa ig L [] = map snd (local_updates ipa ig L) \<and>
   fst ` set (local_updates ipa ig L) = fst ` set (List.map_filter (local_entry ipa ig) L) \<and>
   length (local_updates ipa ig L) = card (fst ` set (List.map_filter (local_entry ipa ig) L))"
proof (intro conjI)
  show "length (merge_with ipa ig L R) =
     length R + card (fst ` set (List.map_filter (local_entry ipa ig) L) -
                      set (List.map_filter (remote_entry ipa ig) R))"
    by (simp only: merge_with_length news_length local_updates_keys remote_index_dom)
  show "merge_with ipa ig L [] = map snd (local_updates ipa ig L)"
    by (simp add: merge_with_char remote_index_Nil overwrite_Nil)
  show "fst ` set (local_updates ipa ig L) = fst ` set (List.map_filter (local_entry ipa ig) L)"
    by (rule local_updates_keys)
  have "length (local_updates ipa ig L) = length (map fst (local_updates ipa ig L))" by simp
  also have "\<dots> = card (set (map fst (local_updates ipa ig L)))"
    using local_updates_distinct [of ipa ig L] by (simp only: distinct_card)
  finally show "length (local_updates ipa ig L) =
      card (fst ` set (List.map_filter (local_entry ipa ig) L))"
    by (simp add: local_updates_keys)
qed

text \<open>
  An instance: three remote lines, four local lines of which two are eligible and one has
  a host name already recorded.
\<close>

theorem merge_hosts_length_witness:
  "length (merge_hosts_with_local ip_address_ex None
     [ascii ''1.2.3.4 h'', ascii ''127.0.0.1 x'', ascii ''5.6.7.8 k'', ascii ''1.2.3.4 mylocalhost'']
     [ascii ''# c'', ascii ''5.6.7.8 h'', ascii ''::1 k'']) = 4 \<and>
   card (fst ` set (List.map_filter (local_entry ip_address_ex (ignore_list None))
     [ascii ''1.2.3.4 h'', ascii ''127.0.0.1 x'', ascii ''5.6.7.8 k'', ascii ''1.2.3.4 mylocalhost'']) -
     set (List.map_filter (remote_entry ip_address_ex (ignore_list None))
     [ascii ''# c'', ascii ''5.6.7.8 h'', ascii ''::1 k''])) = 1"
  using merge_hosts_length [of ip_address_ex "ignore_list None"
     "[ascii ''1.2.3.4 h'', ascii ''127.0.0.1 x'', ascii ''5.6.7.8 k'', ascii ''1.2.3.4 mylocalhost'']"
     "[ascii ''# c'', ascii ''5.6.7.8 h'', ascii ''::1 k'']"]
  by (simp add: ev List.map_filter_simps)

subsection \<open>Idempotence\<close>

text \<open>
  Claim C2 says that merging the same local list again changes nothing.  The loop over the
  remote lines records a line only if it contains a space or a tab (line 563); the loop
  over the local lines splits at any white space (line 575).  A local line whose two
  tokens are separated by an ideographic space (U+3000, code point 12288) is appended by
  the first merge, is
  not recorded when the result is read back as the remote list, and is appended a second
  time.
\<close>

theorem merge_hosts_idempotent_counterexample:
  "merge_hosts_with_local ip_address_ex None [ascii ''1.2.3.4'' @ [12288] @ ascii ''h'']
     (merge_hosts_with_local ip_address_ex None [ascii ''1.2.3.4'' @ [12288] @ ascii ''h''] []) \<noteq>
   merge_hosts_with_local ip_address_ex None [ascii ''1.2.3.4'' @ [12288] @ ascii ''h''] []"
  by (simp add: ev)

text \<open>
  Claim C2, amended: the merge is idempotent in its remote argument whenever every line
  of the update map contains a space or a tab.
\<close>

theorem merge_hosts_idempotent:
  assumes sp: "\<forall>(h, l) \<in> set (local_updates ipa ig L). str_in [32] l \<or> str_in [9] l"
  shows "merge_with ipa ig L (merge_with ipa ig L R) = merge_with ipa ig L R"
proof -
  let ?U = "local_updates ipa ig L"
  let ?idx = "remote_index ipa ig R"
  let ?M = "merge_with ipa ig L R"
  let ?idx' = "remote_index ipa ig ?M"
  let ?e = "remote_entry ipa ig"
  have A: "?e l = Some h" if "(h, l) \<in> set ?U" for h l
  proof -
    from that obtain raw where "local_entry ipa ig raw = Some (h, l)"
      using local_updates_mem by blast
    moreover from that sp have "str_in [32] l \<or> str_in [9] l" by auto
    ultimately show ?thesis by (rule local_entry_remote_entry)
  qed
  have len: "length R \<le> length ?M" by (simp add: merge_with_length)
  have B: "(\<exists>h' l'. (h', l') \<in> set ?U \<and> ?M ! k = l') \<or>
           (k < length R \<and> ?M ! k = R ! k \<and> (\<forall>h' l'. (h', l') \<in> set ?U \<longrightarrow> ?idx h' \<noteq> Some k))"
    if "k < length ?M" for k
  proof (cases "k < length R")
    case True
    show ?thesis
    proof (cases "\<exists>h' l'. (h', l') \<in> set ?U \<and> ?idx h' = Some k")
      case True
      then obtain h' l' where "(h', l') \<in> set ?U" "?idx h' = Some k" by blast
      then show ?thesis using merge_with_written [of h' l' ipa ig L R k] by blast
    next
      case False
      then have "?M ! k = R ! k" using True by (intro merge_with_untouched) auto
      with True False show ?thesis by blast
    qed
  next
    case False
    then have "?M ! k = drop (length R) ?M ! (k - length R)" using that by simp
    moreover have "k - length R < length (drop (length R) ?M)" using that False by simp
    ultimately have "?M ! k \<in> set (drop (length R) ?M)" by (metis nth_mem)
    then have "?M ! k \<in> snd ` set ?U" unfolding merge_with_drop by auto
    then show ?thesis by force
  qed
  have C: "\<exists>k. ?idx' h = Some k \<and> k < length ?M \<and> ?M ! k = l" if hl: "(h, l) \<in> set ?U" for h l
  proof -
    have el: "?e l = Some h" using hl by (rule A)
    have "l \<in> set ?M"
    proof (cases "?idx h")
      case None
      with hl have "l \<in> set (drop (length R) ?M)" unfolding merge_with_drop by force
      then show ?thesis by (rule in_set_dropD)
    next
      case (Some i)
      with hl have "?M ! i = l" by (rule merge_with_written)
      moreover have "i < length ?M" using Some len remote_index_bound [of ipa ig R h i] by simp
      ultimately show ?thesis by (metis nth_mem)
    qed
    with el have "h \<in> set (List.map_filter ?e ?M)"
      by (force simp: List.map_filter_def)
    then have "h \<in> dom ?idx'" by (simp only: remote_index_dom)
    then obtain k where k: "?idx' h = Some k" by blast
    then have kl: "k < length ?M" and ke: "?e (?M ! k) = Some h"
      and klast: "\<And>j. k < j \<Longrightarrow> j < length ?M \<Longrightarrow> ?e (?M ! j) \<noteq> Some h"
      by (simp_all add: remote_index_Some_iff)
    have "?M ! k = l"
      using B [OF kl]
    proof
      assume "\<exists>h' l'. (h', l') \<in> set ?U \<and> ?M ! k = l'"
      then obtain h' l' where m: "(h', l') \<in> set ?U" and eq: "?M ! k = l'" by blast
      from m have "?e l' = Some h'" by (rule A)
      with ke eq have "h' = h" by simp
      with m hl have "l' = l" using local_updates_unique by blast
      with eq show ?thesis by simp
    next
      assume u: "k < length R \<and> ?M ! k = R ! k \<and>
                 (\<forall>h' l'. (h', l') \<in> set ?U \<longrightarrow> ?idx h' \<noteq> Some k)"
      then have kR: "k < length R" and eq: "?M ! k = R ! k" and nk: "?idx h \<noteq> Some k"
        using hl by blast+
      from ke eq have eR: "?e (R ! k) = Some h" by simp
      with kR have "h \<in> set (List.map_filter ?e R)"
        by (force simp: List.map_filter_def in_set_conv_nth)
      then have "h \<in> dom ?idx" by (simp only: remote_index_dom)
      then obtain i where i: "?idx h = Some i" by blast
      then have iR: "i < length R"
        and ilast: "\<And>j. i < j \<Longrightarrow> j < length R \<Longrightarrow> ?e (R ! j) \<noteq> Some h"
        by (simp_all add: remote_index_Some_iff)
      have "\<not> i < k" using ilast [of k] kR eR by auto
      moreover have "i \<noteq> k" using nk i by simp
      ultimately have ki: "k < i" by arith
      have "?M ! i = l" using hl i by (rule merge_with_written)
      then have "?e (?M ! i) = Some h" using el by simp
      moreover have "i < length ?M" using iR len by simp
      ultimately have False using klast [OF ki] by simp
      then show ?thesis ..
    qed
    with k kl show ?thesis by blast
  qed
  have "update_loop ?idx' ?U ?M = Some ?M"
    by (rule update_loop_noop) (rule C)
  then show ?thesis
    by (simp add: merge_with_def [of ipa ig L ?M] remote_loop_pair local_updates_def)
qed

text \<open>An instance where one local line overwrites and one is appended.\<close>

theorem merge_hosts_idempotent_witness:
  "merge_hosts_with_local ip_address_ex None
     [ascii ''1.2.3.4 h'', ascii ''5.6.7.8 k'']
     (merge_hosts_with_local ip_address_ex None
        [ascii ''1.2.3.4 h'', ascii ''5.6.7.8 k''] [ascii ''# c'', ascii ''5.6.7.8 h'']) =
   [ascii ''# c'', ascii ''1.2.3.4 h'', ascii ''5.6.7.8 k''] \<and>
   merge_hosts_with_local ip_address_ex None
        [ascii ''1.2.3.4 h'', ascii ''5.6.7.8 k''] [ascii ''# c'', ascii ''5.6.7.8 h''] =
   [ascii ''# c'', ascii ''1.2.3.4 h'', ascii ''5.6.7.8 k'']"
proof -
  have h: "\<forall>(h, l) \<in> set (local_updates ip_address_ex (ignore_list None)
              [ascii ''1.2.3.4 h'', ascii ''5.6.7.8 k'']). str_in [32] l \<or> str_in [9] l"
    by (simp add: local_updates_def ev)
  have m: "merge_hosts_with_local ip_address_ex None
        [ascii ''1.2.3.4 h'', ascii ''5.6.7.8 k''] [ascii ''# c'', ascii ''5.6.7.8 h''] =
      [ascii ''# c'', ascii ''1.2.3.4 h'', ascii ''5.6.7.8 k'']"
    by (simp add: ev)
  from merge_hosts_idempotent [OF h, of "[ascii ''# c'', ascii ''5.6.7.8 h'']"] m
  show ?thesis by (simp add: merge_hosts_with_local_def)
qed

subsection \<open>Frame: what the merge leaves alone\<close>

text \<open>
  Claim C3.  A remote line at index \<open>i\<close> that is not the recorded line of an updated host
  name (in particular every line that records no host name, and every line whose host
  name has no local update) stands unchanged at index \<open>i\<close> of the result.  An update
  \<open>(h, l)\<close> whose host name has the recorded index \<open>i\<close> puts \<open>l\<close> at index \<open>i\<close>, and
  \<open>i\<close> is the last remote line that records \<open>h\<close>.  The result is at least as long as
  the remote list, and what follows index \<open>len(R) - 1\<close> is exactly the lines of the updates
  whose host name has no index, in the order of the update map.
\<close>

theorem merge_hosts_frame:
  "(i < length R \<and> (\<forall>(h', l') \<in> set (local_updates ipa ig L). remote_index ipa ig R h' \<noteq> Some i)
      \<longrightarrow> merge_with ipa ig L R ! i = R ! i) \<and>
   (i < length R \<and> remote_entry ipa ig (R ! i) \<notin> Some ` fst ` set (local_updates ipa ig L)
      \<longrightarrow> merge_with ipa ig L R ! i = R ! i) \<and>
   ((h, l) \<in> set (local_updates ipa ig L) \<and> remote_index ipa ig R h = Some i
      \<longrightarrow> i < length R \<and> merge_with ipa ig L R ! i = l \<and>
          remote_entry ipa ig (R ! i) = Some h \<and>
          (\<forall>j. i < j \<and> j < length R \<longrightarrow> remote_entry ipa ig (R ! j) \<noteq> Some h)) \<and>
   length R \<le> length (merge_with ipa ig L R) \<and>
   drop (length R) (merge_with ipa ig L R) =
     map snd (filter (\<lambda>(h, l). remote_index ipa ig R h = None) (local_updates ipa ig L))"
proof (intro conjI impI)
  assume a: "i < length R \<and>
     (\<forall>(h', l') \<in> set (local_updates ipa ig L). remote_index ipa ig R h' \<noteq> Some i)"
  then show "merge_with ipa ig L R ! i = R ! i"
    by (intro merge_with_untouched) auto
next
  assume a: "i < length R \<and>
     remote_entry ipa ig (R ! i) \<notin> Some ` fst ` set (local_updates ipa ig L)"
  have "remote_index ipa ig R h' \<noteq> Some i" if "(h', l') \<in> set (local_updates ipa ig L)" for h' l'
  proof
    assume "remote_index ipa ig R h' = Some i"
    then have "remote_entry ipa ig (R ! i) = Some h'" by (simp add: remote_index_Some_iff)
    with that a show False by force
  qed
  with a show "merge_with ipa ig L R ! i = R ! i"
    by (intro merge_with_untouched) auto
next
  assume a: "(h, l) \<in> set (local_updates ipa ig L) \<and> remote_index ipa ig R h = Some i"
  then show "i < length R" "remote_entry ipa ig (R ! i) = Some h"
    "\<forall>j. i < j \<and> j < length R \<longrightarrow> remote_entry ipa ig (R ! j) \<noteq> Some h"
    by (simp_all add: remote_index_Some_iff)
  from a show "merge_with ipa ig L R ! i = l" by (intro merge_with_written) auto
next
  show "length R \<le> length (merge_with ipa ig L R)" by (simp add: merge_with_length)
  show "drop (length R) (merge_with ipa ig L R) =
     map snd (filter (\<lambda>(h, l). remote_index ipa ig R h = None) (local_updates ipa ig L))"
    by (rule merge_with_drop)
qed

text \<open>
  An instance: the host name \<open>h\<close> occurs on remote lines 0 and 2; line 2 is overwritten,
  line 0 stays, and the update for \<open>k\<close> is appended after the four remote lines.
\<close>

theorem merge_hosts_frame_witness:
  "merge_hosts_with_local ip_address_ex None
     [ascii ''1.2.3.4 h'', ascii ''5.6.7.8 k'']
     [ascii ''5.6.7.8 h'', ascii ''# c'', ascii ''5.6.7.8 h'', ascii ''bad''] ! 0 = ascii ''5.6.7.8 h'' \<and>
   merge_hosts_with_local ip_address_ex None
     [ascii ''1.2.3.4 h'', ascii ''5.6.7.8 k'']
     [ascii ''5.6.7.8 h'', ascii ''# c'', ascii ''5.6.7.8 h'', ascii ''bad''] ! 2 = ascii ''1.2.3.4 h'' \<and>
   drop 4 (merge_hosts_with_local ip_address_ex None
     [ascii ''1.2.3.4 h'', ascii ''5.6.7.8 k'']
     [ascii ''5.6.7.8 h'', ascii ''# c'', ascii ''5.6.7.8 h'', ascii ''bad'']) = [ascii ''5.6.7.8 k'']"
proof -
  let ?ig = "ignore_list None"
  let ?L = "[ascii ''1.2.3.4 h'', ascii ''5.6.7.8 k'']"
  let ?R = "[ascii ''5.6.7.8 h'', ascii ''# c'', ascii ''5.6.7.8 h'', ascii ''bad'']"
  have U: "local_updates ip_address_ex ?ig ?L =
             [(ascii ''h'', ascii ''1.2.3.4 h''), (ascii ''k'', ascii ''5.6.7.8 k'')]"
    by (simp add: local_updates_def ev)
  have "remote_index ip_address_ex ?ig ?R = [ascii ''h'' \<mapsto> Suc (Suc 0)]"
    by (simp add: remote_index_def ev)
  also have "\<dots> = [ascii ''h'' \<mapsto> 2]"
    by (simp only: numeral_2_eq_2)
  finally have I: "remote_index ip_address_ex ?ig ?R = [ascii ''h'' \<mapsto> 2]" .
  have h0: "0 < length ?R \<and>
     (\<forall>(h', l') \<in> set (local_updates ip_address_ex ?ig ?L).
        remote_index ip_address_ex ?ig ?R h' \<noteq> Some 0)"
    unfolding U I by (simp add: ascii_def)
  have h2: "(ascii ''h'', ascii ''1.2.3.4 h'') \<in> set (local_updates ip_address_ex ?ig ?L) \<and>
     remote_index ip_address_ex ?ig ?R (ascii ''h'') = Some 2"
    unfolding U I by simp
  have d: "map snd (filter (\<lambda>(h, l). remote_index ip_address_ex ?ig ?R h = None)
             (local_updates ip_address_ex ?ig ?L)) = [ascii ''5.6.7.8 k'']"
    unfolding U I by (simp add: ascii_def)
  from merge_hosts_frame [of 0 ?R ip_address_ex ?ig ?L] h0
  have "merge_with ip_address_ex ?ig ?L ?R ! 0 = ?R ! 0" by blast
  moreover from merge_hosts_frame [of 2 ?R ip_address_ex ?ig ?L "ascii ''h''" "ascii ''1.2.3.4 h''"] h2
  have "merge_with ip_address_ex ?ig ?L ?R ! 2 = ascii ''1.2.3.4 h''" by blast
  moreover have l4: "length ?R = 4" by simp
  from merge_hosts_frame [of 0 ?R ip_address_ex ?ig ?L]
  have "drop (length ?R) (merge_with ip_address_ex ?ig ?L ?R) =
          map snd (filter (\<lambda>(h, l). remote_index ip_address_ex ?ig ?R h = None)
             (local_updates ip_address_ex ?ig ?L))" by blast
  then have "drop 4 (merge_with ip_address_ex ?ig ?L ?R) = [ascii ''5.6.7.8 k'']"
    unfolding d l4 .
  ultimately show ?thesis by (simp only: merge_hosts_with_local_def nth_Cons_0 simp_thms)
qed

subsection \<open>Address filter and ignore rule\<close>

lemma should_ignore_ip_iff:
  "should_ignore_ip ipa ip \<longleftrightarrow> (\<exists>a. ipa ip = Some a \<and> (is_loopback a \<or> version a = 6))"
  by (simp add: should_ignore_ip_def split: option.splits)

lemma remote_entry_filtered:
  "should_ignore_ip ipa (re_split_ws (strip line) ! 0) \<Longrightarrow> remote_entry ipa ig line = None"
  by (simp add: remote_entry_def Let_def)

lemma local_entry_filtered:
  "should_ignore_ip ipa (re_split_ws (strip (lstrip_chars [65279] raw)) ! 0) \<Longrightarrow>
     local_entry ipa ig raw = None"
  by (simp add: local_entry_def Let_def)

lemma local_entry_not_filtered:
  "local_entry ipa ig raw = Some (h, l) \<Longrightarrow> \<not> should_ignore_ip ipa (re_split_ws l ! 0)"
  by (auto simp: local_entry_def Let_def split: if_splits)

text \<open>
  Claim C4.  Let the address token (the first white-space separated token of the stripped
  line) parse to an IPv4 address inside 127.0.0.0/8 or to any IPv6 address.  Then, for
  every ignore list, the remote loop records nothing for the line, the local loop stores
  no update for it, no line of the update map has this address token, and a remote line
  with this address token stands unchanged at its index in the result.
\<close>

theorem address_filter:
  assumes "ipa tok = Some a"
    and "(\<exists>n. a = IPv4Address n \<and> 127 * 2 ^ 24 \<le> n \<and> n < 128 * 2 ^ 24) \<or> (\<exists>n. a = IPv6Address n)"
  shows "(re_split_ws (strip line) ! 0 = tok \<longrightarrow> remote_entry ipa ig line = None) \<and>
         (re_split_ws (strip (lstrip_chars [65279] raw)) ! 0 = tok \<longrightarrow>
            local_entry ipa ig raw = None) \<and>
         (\<forall>(h, l) \<in> set (local_updates ipa ig L). re_split_ws l ! 0 \<noteq> tok) \<and>
         (i < length R \<and> re_split_ws (strip (R ! i)) ! 0 = tok \<longrightarrow>
            merge_with ipa ig L R ! i = R ! i)"
proof -
  have "is_loopback a \<or> version a = 6"
    using assms(2)
  proof
    assume "\<exists>n. a = IPv4Address n \<and> 127 * 2 ^ 24 \<le> n \<and> n < 128 * 2 ^ 24"
    then obtain n where a: "a = IPv4Address n" and "127 * 2 ^ 24 \<le> n" "n < 128 * 2 ^ 24"
      by blast
    then have "n div 2 ^ 24 = 127" by (intro div_nat_eqI) simp_all
    then show ?thesis using a by simp
  next
    assume "\<exists>n. a = IPv6Address n"
    then show ?thesis by auto
  qed
  with assms(1) have ig: "should_ignore_ip ipa tok" by (auto simp: should_ignore_ip_iff)
  have 1: "re_split_ws (strip line) ! 0 = tok \<longrightarrow> remote_entry ipa ig line = None"
    using ig remote_entry_filtered by blast
  have 2: "re_split_ws (strip (lstrip_chars [65279] raw)) ! 0 = tok \<longrightarrow>
            local_entry ipa ig raw = None"
    using ig local_entry_filtered by blast
  have 3: "\<forall>(h, l) \<in> set (local_updates ipa ig L). re_split_ws l ! 0 \<noteq> tok"
  proof (clarify)
    fix h l assume m: "(h, l) \<in> set (local_updates ipa ig L)" and t: "tok = re_split_ws l ! 0"
    from m obtain raw' where "local_entry ipa ig raw' = Some (h, l)"
      using local_updates_mem by blast
    then have "\<not> should_ignore_ip ipa (re_split_ws l ! 0)" by (rule local_entry_not_filtered)
    with ig t show False by simp
  qed
  have 4: "i < length R \<and> re_split_ws (strip (R ! i)) ! 0 = tok \<longrightarrow>
            merge_with ipa ig L R ! i = R ! i"
  proof
    assume a: "i < length R \<and> re_split_ws (strip (R ! i)) ! 0 = tok"
    then have "remote_entry ipa ig (R ! i) = None" using ig remote_entry_filtered by blast
    then have "\<And>h. remote_index ipa ig R h \<noteq> Some i" by (simp add: remote_index_Some_iff)
    with a show "merge_with ipa ig L R ! i = R ! i" by (intro merge_with_untouched) auto
  qed
  from 1 2 3 4 show ?thesis by blast
qed

text \<open>An instance with the loopback address 127.0.0.1 and an empty ignore list.\<close>

theorem address_filter_witness:
  "remote_entry ip_address_ex [] (ascii ''127.0.0.1 myhost'') = None \<and>
   local_entry ip_address_ex [] (ascii ''127.0.0.1 myhost'') = None \<and>
   remote_entry ip_address_ex [] (ascii ''1.2.3.4 myhost'') = Some (ascii ''myhost'') \<and>
   merge_hosts_with_local ip_address_ex None
     [ascii ''1.2.3.4 myhost''] [ascii ''127.0.0.1 myhost''] ! 0 = ascii ''127.0.0.1 myhost''"
proof -
  have a: "ip_address_ex (ascii ''127.0.0.1'') = Some (IPv4Address 2130706433)"
    by (simp add: ip_address_ex_def)
  have b: "(\<exists>n. IPv4Address 2130706433 = IPv4Address n \<and> 127 * 2 ^ 24 \<le> n \<and> n < 128 * 2 ^ 24) \<or>
           (\<exists>n. IPv4Address 2130706433 = IPv6Address n)"
    by simp
  have t: "re_split_ws (strip (ascii ''127.0.0.1 myhost'')) ! 0 = ascii ''127.0.0.1''"
    "re_split_ws (strip (lstrip_chars [65279] (ascii ''127.0.0.1 myhost''))) ! 0 = ascii ''127.0.0.1''"
    by (simp_all add: ev)
  have c: "(0::nat) < length [ascii ''127.0.0.1 myhost''] \<and>
     re_split_ws (strip ([ascii ''127.0.0.1 myhost''] ! 0)) ! 0 = ascii ''127.0.0.1''"
    using t by simp
  have e: "remote_entry ip_address_ex [] (ascii ''1.2.3.4 myhost'') = Some (ascii ''myhost'')"
    by (simp add: ev)
  from address_filter [where ipa = ip_address_ex and tok = "ascii ''127.0.0.1''"
      and a = "IPv4Address 2130706433" and line = "ascii ''127.0.0.1 myhost''" and ig = "[]"
      and raw = "ascii ''127.0.0.1 myhost''" and L = "[ascii ''1.2.3.4 myhost'']" and i = 0
      and R = "[ascii ''127.0.0.1 myhost'']", OF a b] t
  have "remote_entry ip_address_ex [] (ascii ''127.0.0.1 myhost'') = None"
       "local_entry ip_address_ex [] (ascii ''127.0.0.1 myhost'') = None" by blast+
  moreover from address_filter [where ipa = ip_address_ex and tok = "ascii ''127.0.0.1''"
      and a = "IPv4Address 2130706433" and line = "ascii ''127.0.0.1 myhost''"
      and ig = "ignore_list None"
      and raw = "ascii ''127.0.0.1 myhost''" and L = "[ascii ''1.2.3.4 myhost'']" and i = 0
      and R = "[ascii ''127.0.0.1 myhost'']", OF a b] c
  have "merge_with ip_address_ex (ignore_list None)
     [ascii ''1.2.3.4 myhost''] [ascii ''127.0.0.1 myhost''] ! 0 = [ascii ''127.0.0.1 myhost''] ! 0"
    by blast
  ultimately show ?thesis using e by (simp only: merge_hosts_with_local_def nth_Cons_0 simp_thms)
qed






section \<open>Properties of the path translator\<close>

text \<open>The definitions unfolded when the translator and the queue run on a concrete input.\<close>

lemmas pev = ascii_def startswith_def endswith_def replace_backslash_def lstrip_chars_def
  truthy_def marker_def ensure_slash_def rule_matches_def simple_mode_def
  translate_marker_path_def translate_path_def translation_failed_def Let_def
  suffix_to_prefix no_config_def pair_config_def triple_config_def plex_config_def

lemmas qev = detect_media_type_from_path_def type_mapping_def get_library_id_def
  get_library_ids_def trigger_plex_scan_def scan_dir_of_def process_scan_queue_def
  lower_ex_def queued_def

subsection \<open>Matching a triple rule\<close>

lemma replace_first_prefix:
  "prefix old s \<Longrightarrow> replace_first old new s = new @ drop (length old) s"
  by (cases s) simp_all

lemma rule_matches_prefix:
  "rule_matches m pn \<Longrightarrow> prefix (replace_backslash (rule_local m)) pn"
  by (auto simp: rule_matches_def startswith_def Let_def split: if_splits
           dest: append_prefixD)

lemma rule_matches_iff:
  "rule_matches m pn \<longleftrightarrow>
     prefix (ensure_slash (replace_backslash (rule_local m))) pn \<or>
     pn = replace_backslash (rule_local m)"
  by (simp add: rule_matches_def ensure_slash_def startswith_def Let_def)

lemma match_library_mapping_None:
  "match_library_mapping rules pn = None \<longleftrightarrow> (\<forall>m \<in> set rules. \<not> rule_matches m pn)"
  by (induction rules) (simp_all add: Let_def)

lemma match_library_mapping_first:
  assumes "\<forall>m' \<in> set pre. \<not> rule_matches m' pn" and "rule_matches m pn"
  shows "match_library_mapping (pre @ m # post) pn =
           Some (replace_backslash (rule_remote m) @
                 drop (length (replace_backslash (rule_local m))) pn,
                 Some (rule_library_id m))"
  using assms(1)
proof (induction pre)
  case Nil
  show ?case using assms(2) rule_matches_prefix [OF assms(2)]
    by (simp add: Let_def replace_first_prefix)
next
  case (Cons a pre)
  then show ?case by (simp add: Let_def)
qed

lemma replace_backslash_id: "92 \<notin> set p \<Longrightarrow> replace_backslash p = p"
  unfolding replace_backslash_def by (induction p) auto

lemma marker_remainder:
  "startswith p marker \<Longrightarrow> replace_first marker [] p = drop (length marker) p"
  by (simp add: startswith_def replace_first_prefix)

text \<open>
  Claim C6.  Let the path begin with the marker, and let \<open>m\<close> be the first triple rule, in
  the configured order, that matches the remainder after the marker with backslashes
  turned into slashes.  A rule matches when that remainder starts with the rule's local
  prefix with a closing slash ensured, or equals the local prefix: the prefix ends at the
  boundary of a path segment.  Then the translator returns the remainder with the local
  prefix at its start replaced by the remote prefix, together with the library id of
  \<open>m\<close>.  In particular the marker followed by \<open>/a/b/file.mkv\<close>, with the single triple
  rule \<open>(/a/, /x/, 7)\<close>, gives \<open>(/x/b/file.mkv, 7)\<close>, whatever the other settings are.
\<close>

theorem translate_marker_triple:
  assumes "startswith p marker"
    and "path_library_mapping self = pre @ m # post"
    and "\<forall>m' \<in> set pre. \<not> rule_matches m' (replace_backslash (drop (length marker) p))"
    and "rule_matches m (replace_backslash (drop (length marker) p))"
  shows "translate_path self p =
           Some (replace_backslash (rule_remote m) @
                 drop (length (replace_backslash (rule_local m)))
                   (replace_backslash (drop (length marker) p)),
                 Some (rule_library_id m)) \<and>
         (rule_matches m (replace_backslash (drop (length marker) p)) \<longleftrightarrow>
            prefix (ensure_slash (replace_backslash (rule_local m)))
              (replace_backslash (drop (length marker) p)) \<or>
            replace_backslash (drop (length marker) p) = replace_backslash (rule_local m)) \<and>
         translate_path
           (self\<lparr>path_library_mapping :=
              [\<lparr>rule_local = ascii ''/a/'', rule_remote = ascii ''/x/'',
                rule_library_id = ascii ''7''\<rparr>]\<rparr>)
           (marker @ ascii ''/a/b/file.mkv'') =
         Some (ascii ''/x/b/file.mkv'', Some (ascii ''7''))"
proof (intro conjI)
  have "match_library_mapping (path_library_mapping self)
          (replace_backslash (drop (length marker) p)) =
        Some (replace_backslash (rule_remote m) @
                 drop (length (replace_backslash (rule_local m)))
                   (replace_backslash (drop (length marker) p)),
              Some (rule_library_id m))"
    unfolding assms(2) using assms(3,4) by (rule match_library_mapping_first)
  then show "translate_path self p =
           Some (replace_backslash (rule_remote m) @
                 drop (length (replace_backslash (rule_local m)))
                   (replace_backslash (drop (length marker) p)),
                 Some (rule_library_id m))"
    using assms(1)
    by (simp add: translate_path_def translate_marker_path_def marker_remainder)
  show "rule_matches m (replace_backslash (drop (length marker) p)) \<longleftrightarrow>
            prefix (ensure_slash (replace_backslash (rule_local m)))
              (replace_backslash (drop (length marker) p)) \<or>
            replace_backslash (drop (length marker) p) = replace_backslash (rule_local m)"
    by (rule rule_matches_iff)
  show "translate_path
           (self\<lparr>path_library_mapping :=
              [\<lparr>rule_local = ascii ''/a/'', rule_remote = ascii ''/x/'',
                rule_library_id = ascii ''7''\<rparr>]\<rparr>)
           (marker @ ascii ''/a/b/file.mkv'') =
         Some (ascii ''/x/b/file.mkv'', Some (ascii ''7''))"
    by (simp add: pev)
qed

text \<open>
  An instance with three rules: the first does not match, the second and the third do,
  and the second one is used.
\<close>

theorem translate_marker_triple_witness:
  "translate_path
     (no_config\<lparr>path_library_mapping :=
        [\<lparr>rule_local = ascii ''/q'', rule_remote = ascii ''/r'', rule_library_id = ascii ''3''\<rparr>,
         \<lparr>rule_local = ascii ''/a'', rule_remote = ascii ''/x'', rule_library_id = ascii ''7''\<rparr>,
         \<lparr>rule_local = ascii ''/a/b'', rule_remote = ascii ''/z'', rule_library_id = ascii ''9''\<rparr>]\<rparr>)
     (marker @ ascii ''/a/b/file.mkv'') =
   Some (ascii ''/x/b/file.mkv'', Some (ascii ''7''))"
proof -
  let ?m1 = "\<lparr>rule_local = ascii ''/q'', rule_remote = ascii ''/r'', rule_library_id = ascii ''3''\<rparr>"
  let ?m2 = "\<lparr>rule_local = ascii ''/a'', rule_remote = ascii ''/x'', rule_library_id = ascii ''7''\<rparr>"
  let ?m3 = "\<lparr>rule_local = ascii ''/a/b'', rule_remote = ascii ''/z'', rule_library_id = ascii ''9''\<rparr>"
  let ?self = "no_config\<lparr>path_library_mapping := [?m1, ?m2, ?m3]\<rparr>"
  let ?p = "marker @ ascii ''/a/b/file.mkv''"
  have a1: "startswith ?p marker" by (simp add: startswith_def)
  have a2: "path_library_mapping ?self = [?m1] @ ?m2 # [?m3]" by (simp add: no_config_def)
  have a3: "\<forall>m' \<in> set [?m1]. \<not> rule_matches m' (replace_backslash (drop (length marker) ?p))"
    by (simp add: pev)
  have a4: "rule_matches ?m2 (replace_backslash (drop (length marker) ?p))"
    by (simp add: pev)
  from translate_marker_triple [OF a1 a2 a3 a4]
  have "translate_path ?self ?p =
          Some (replace_backslash (rule_remote ?m2) @
                 drop (length (replace_backslash (rule_local ?m2)))
                   (replace_backslash (drop (length marker) ?p)),
                 Some (rule_library_id ?m2))" by blast
  also have "replace_backslash (rule_remote ?m2) @
                 drop (length (replace_backslash (rule_local ?m2)))
                   (replace_backslash (drop (length marker) ?p)) = ascii ''/x/b/file.mkv''"
    by (simp add: pev)
  finally show ?thesis by simp
qed

subsection \<open>The legacy pair mapping\<close>

text \<open>
  Claim C7 says that a path that does not start with the local prefix is returned
  unchanged.  Line 984 assigns the normalized path to \<open>local_path\<close> before the test, and
  line 1002 returns that variable: the path \<open>\x\<close> (a backslash, then \<open>x\<close>) comes back
  as \<open>/x\<close>.
\<close>

theorem translate_legacy_pair_counterexample:
  "\<not> startswith [92, 120] marker \<and>
   path_library_mapping pair_config = [] \<and>
   path_mapping_local pair_config = Some (ascii ''/a/'') \<and>
   path_mapping_remote pair_config = Some (ascii ''/y/'') \<and>
   \<not> startswith (replace_backslash [92, 120]) (ascii ''/a/'') \<and>
   translate_path pair_config [92, 120] = Some ([47, 120], None) \<and>
   translate_path pair_config [92, 120] \<noteq> Some ([92, 120], None)"
  by (simp add: pev)

text \<open>
  Claim C7, amended.  For a path without the marker that no triple rule matches: when a
  non-empty local and a non-empty remote prefix are configured, the input and both
  prefixes are normalized (backslash to slash, closing slash ensured on the prefixes); if
  the normalized input starts with the local prefix, that prefix is replaced by the remote
  prefix, and otherwise the normalized input is returned, which is the original path when
  it contains no backslash.  When one of the two prefixes is missing the original path is
  returned unchanged.  The library id is absent in every case.  In particular
  \<open>/a/b/file.mkv\<close> with the pair \<open>(/a/, /y/)\<close> and no triple rule gives
  \<open>(/y/b/file.mkv, absent)\<close>.
\<close>

theorem translate_legacy_pair:
  assumes "\<not> startswith p marker"
    and "\<forall>m \<in> set (path_library_mapping self). \<not> rule_matches m (replace_backslash p)"
  shows "(truthy (path_mapping_local self) \<and> truthy (path_mapping_remote self) \<and>
          startswith (replace_backslash p)
            (ensure_slash (replace_backslash (the (path_mapping_local self))))
          \<longrightarrow> translate_path self p =
                Some (ensure_slash (replace_backslash (the (path_mapping_remote self))) @
                      drop (length (ensure_slash (replace_backslash (the (path_mapping_local self)))))
                        (replace_backslash p), None)) \<and>
         (truthy (path_mapping_local self) \<and> truthy (path_mapping_remote self) \<and>
          \<not> startswith (replace_backslash p)
              (ensure_slash (replace_backslash (the (path_mapping_local self))))
          \<longrightarrow> translate_path self p = Some (replace_backslash p, None)) \<and>
         (\<not> truthy (path_mapping_local self) \<or> \<not> truthy (path_mapping_remote self)
          \<longrightarrow> translate_path self p = Some (p, None)) \<and>
         (92 \<notin> set p \<longrightarrow> replace_backslash p = p) \<and>
         translate_path
           (self\<lparr>path_library_mapping := [], path_mapping_local := Some (ascii ''/a/''),
                 path_mapping_remote := Some (ascii ''/y/'')\<rparr>)
           (ascii ''/a/b/file.mkv'') =
         Some (ascii ''/y/b/file.mkv'', None)"
proof -
  have n: "match_library_mapping (path_library_mapping self) (replace_backslash p) = None"
    using assms(2) by (simp add: match_library_mapping_None)
  have 1: "truthy (path_mapping_local self) \<and> truthy (path_mapping_remote self) \<and>
          startswith (replace_backslash p)
            (ensure_slash (replace_backslash (the (path_mapping_local self))))
          \<longrightarrow> translate_path self p =
                Some (ensure_slash (replace_backslash (the (path_mapping_remote self))) @
                      drop (length (ensure_slash (replace_backslash (the (path_mapping_local self)))))
                        (replace_backslash p), None)"
    using assms(1) n
    by (simp add: translate_path_def Let_def replace_first_prefix startswith_def)
  have 2: "truthy (path_mapping_local self) \<and> truthy (path_mapping_remote self) \<and>
          \<not> startswith (replace_backslash p)
              (ensure_slash (replace_backslash (the (path_mapping_local self))))
          \<longrightarrow> translate_path self p = Some (replace_backslash p, None)"
    using assms(1) n by (simp add: translate_path_def Let_def)
  have 3: "\<not> truthy (path_mapping_local self) \<or> \<not> truthy (path_mapping_remote self)
          \<longrightarrow> translate_path self p = Some (p, None)"
    using assms(1) n by (auto simp: translate_path_def Let_def)
  have 4: "92 \<notin> set p \<longrightarrow> replace_backslash p = p"
    by (simp add: replace_backslash_id)
  have 5: "translate_path
           (self\<lparr>path_library_mapping := [], path_mapping_local := Some (ascii ''/a/''),
                 path_mapping_remote := Some (ascii ''/y/'')\<rparr>)
           (ascii ''/a/b/file.mkv'') =
         Some (ascii ''/y/b/file.mkv'', None)"
    by (simp add: pev)
  from 1 2 3 4 5 show ?thesis by blast
qed

text \<open>One instance for each of the three cases.\<close>

theorem translate_legacy_pair_witness:
  "translate_path pair_config (ascii ''/a/b/file.mkv'') = Some (ascii ''/y/b/file.mkv'', None) \<and>
   translate_path pair_config (ascii ''/c/d.mkv'') = Some (ascii ''/c/d.mkv'', None) \<and>
   translate_path no_config [92, 120] = Some ([92, 120], None)"
proof -
  have m: "\<not> startswith (ascii ''/a/b/file.mkv'') marker" "\<not> startswith (ascii ''/c/d.mkv'') marker"
    "\<not> startswith [92, 120] marker"
    by (simp_all add: pev)
  have r: "\<forall>m \<in> set (path_library_mapping pair_config).
             \<not> rule_matches m (replace_backslash (ascii ''/a/b/file.mkv''))"
    "\<forall>m \<in> set (path_library_mapping pair_config).
             \<not> rule_matches m (replace_backslash (ascii ''/c/d.mkv''))"
    "\<forall>m \<in> set (path_library_mapping no_config). \<not> rule_matches m (replace_backslash [92, 120])"
    by (simp_all add: pair_config_def no_config_def)
  have c1: "truthy (path_mapping_local pair_config) \<and> truthy (path_mapping_remote pair_config) \<and>
          startswith (replace_backslash (ascii ''/a/b/file.mkv''))
            (ensure_slash (replace_backslash (the (path_mapping_local pair_config))))"
    by (simp add: pev)
  have c2: "truthy (path_mapping_local pair_config) \<and> truthy (path_mapping_remote pair_config) \<and>
          \<not> startswith (replace_backslash (ascii ''/c/d.mkv''))
            (ensure_slash (replace_backslash (the (path_mapping_local pair_config))))"
    by (simp add: pev)
  have c3: "\<not> truthy (path_mapping_local no_config) \<or> \<not> truthy (path_mapping_remote no_config)"
    by (simp add: pev)
  from translate_legacy_pair [OF m(1) r(1)] c1
  have "translate_path pair_config (ascii ''/a/b/file.mkv'') =
          Some (ensure_slash (replace_backslash (the (path_mapping_remote pair_config))) @
                drop (length (ensure_slash (replace_backslash (the (path_mapping_local pair_config)))))
                  (replace_backslash (ascii ''/a/b/file.mkv'')), None)" by blast
  then have e1: "translate_path pair_config (ascii ''/a/b/file.mkv'') =
        Some (ascii ''/y/b/file.mkv'', None)"
    by (simp add: pev)
  from translate_legacy_pair [OF m(2) r(2)] c2
  have "translate_path pair_config (ascii ''/c/d.mkv'') =
          Some (replace_backslash (ascii ''/c/d.mkv''), None)" by blast
  then have e2: "translate_path pair_config (ascii ''/c/d.mkv'') = Some (ascii ''/c/d.mkv'', None)"
    by (simp add: pev)
  from translate_legacy_pair [OF m(3) r(3)] c3
  have e3: "translate_path no_config [92, 120] = Some ([92, 120], None)" by blast
  from e1 e2 e3 show ?thesis by blast
qed

subsection \<open>Totality\<close>

text \<open>
  Claim C10 says that the caller's failure branch, taken when
  \<open>not result or not result[0]\<close>, is never taken.  For the bare marker and no mapping
  configured the translator returns the empty string, which is false in Python.
\<close>

theorem translate_path_failure_counterexample:
  "translate_path no_config marker = Some ([], None) \<and>
   translation_failed (translate_path no_config marker)"
  by (simp add: pev)

text \<open>
  Claim C10, amended.  For every input string and every configuration the translator
  returns a pair, never \<open>None\<close>; the caller's failure branch is taken exactly when the
  returned path is the empty string.
\<close>

theorem translate_path_total:
  "translate_path self p \<noteq> None \<and>
   (translation_failed (translate_path self p) \<longleftrightarrow>
      (\<exists>library_id. translate_path self p = Some ([], library_id)))"
proof -
  have "\<exists>r. translate_path self p = Some r"
    by (cases "match_library_mapping (path_library_mapping self) (replace_backslash p)";
        cases "match_library_mapping (path_library_mapping self)
                 (replace_backslash (replace_first marker [] p))")
       (simp_all add: translate_path_def translate_marker_path_def simple_mode_def Let_def)
  then obtain a b where "translate_path self p = Some (a, b)" by force
  then show ?thesis by (simp add: translation_failed_def)
qed

text \<open>An instance where the result is a non-empty path and the failure branch is not taken.\<close>

theorem translate_path_total_witness:
  "translate_path triple_config (marker @ ascii ''/a/b/file.mkv'') \<noteq> None \<and>
   \<not> translation_failed (translate_path triple_config (marker @ ascii ''/a/b/file.mkv''))"
proof -
  have "translate_path triple_config (marker @ ascii ''/a/b/file.mkv'') =
          Some (ascii ''/x/b/file.mkv'', Some (ascii ''7''))"
    by (simp add: pev)
  then have "\<not> (\<exists>library_id. translate_path triple_config (marker @ ascii ''/a/b/file.mkv'') =
                Some ([], library_id))"
    by (simp add: ascii_def)
  with translate_path_total [of triple_config "marker @ ascii ''/a/b/file.mkv''"]
  show ?thesis by blast
qed

section \<open>The scan queue\<close>

text \<open>
  Claim C8 says that every directory group gets exactly one call of the rescan trigger.
  With three queued files in three directories, the first directory is scanned and the
  last queued entry is removed; the second directory is scanned, the removal of the same
  entry raises, the handler's removal raises again and the exception leaves
  \<open>process_scan_queue\<close>: the third directory is never scanned.
\<close>

theorem scan_queue_third_directory_skipped:
  "process_scan_queue plex_config lower_ex (\<lambda>library_id path. True)
     [queued ''/m/a/1.mkv'' 1, queued ''/m/b/2.mkv'' 2, queued ''/m/c/3.mkv'' 3] =
   \<lparr>run_queue = [queued ''/m/a/1.mkv'' 1, queued ''/m/b/2.mkv'' 2],
    run_trace =
      [TriggerPlexScan (ascii ''/m/a/'') (Some (ascii ''movie'')) None,
       HttpGet (ascii ''1'') (ascii ''/m/a/''),
       TriggerPlexScan (ascii ''/m/b/'') (Some (ascii ''movie'')) None,
       HttpGet (ascii ''1'') (ascii ''/m/b/'')],
    run_raised = True\<rparr>"
  by (simp add: pev qev)

text \<open>
  Claim C9 says that one run leaves the queue empty.  With two queued files in the same
  directory there is one directory, so one removal: the run ends normally and the first
  entry is still queued.
\<close>

theorem scan_queue_not_drained:
  "process_scan_queue plex_config lower_ex (\<lambda>library_id path. True)
     [queued ''/m/a/1.mkv'' 1, queued ''/m/a/2.mkv'' 2] =
   \<lparr>run_queue = [queued ''/m/a/1.mkv'' 1],
    run_trace =
      [TriggerPlexScan (ascii ''/m/a/'') (Some (ascii ''movie'')) None,
       HttpGet (ascii ''1'') (ascii ''/m/a/'')],
    run_raised = False\<rparr>"
  by (simp add: pev qev)

end
